theory Spec2Isabelle
  imports Complex_Main "HOL-Library.AList"
begin

section \<open>JavaScript numbers\<close>

text \<open>
  A finite JavaScript number is a binary64 value, hence a rational. Numbers are modelled
  as \<open>rat\<close>, and every arithmetic operation of the source rounds its exact result to
  the nearest binary64 value, ties to even (\<open>fl\<close>). Infinity, NaN and the sign of zero
  have no counterpart in \<open>rat\<close>: the model covers finite numbers, and results stay
  below \<open>2 ^ 1024\<close> in everything evaluated here.
\<close>

function log2_up :: "rat \<Rightarrow> int" where
  "log2_up x = (if 2 \<le> x then log2_up (x / 2) + 1 else 0)"
  by pat_completeness auto
termination
proof (relation "measure (\<lambda>x. nat \<lfloor>x\<rfloor>)")
  show "wf (measure (\<lambda>x::rat. nat \<lfloor>x\<rfloor>))" by simp
next
  fix x :: rat
  assume "2 \<le> x"
  then have "\<lfloor>x / 2\<rfloor> < \<lfloor>x\<rfloor>" by linarith
  moreover have "0 < \<lfloor>x\<rfloor>" using \<open>2 \<le> x\<close> by linarith
  ultimately show "(x / 2, x) \<in> measure (\<lambda>x. nat \<lfloor>x\<rfloor>)" by simp
qed

function log2_down :: "rat \<Rightarrow> int" where
  "log2_down x = (if 0 < x \<and> x < 1 then log2_down (x * 2) - 1 else 0)"
  by pat_completeness auto
termination
proof (relation "measure (\<lambda>x. nat \<lceil>1 / x\<rceil>)")
  show "wf (measure (\<lambda>x::rat. nat \<lceil>1 / x\<rceil>))" by simp
next
  fix x :: rat
  assume a: "0 < x \<and> x < 1"
  then have big: "1 < 1 / x" by simp
  define c where "c = \<lceil>1 / x\<rceil>"
  have c2: "2 \<le> c" using big unfolding c_def by linarith
  have "1 / x \<le> of_int c" unfolding c_def by linarith
  then have "1 / (x * 2) \<le> of_int c / 2" by simp
  also have "\<dots> \<le> of_int (c - 1)" using c2 by simp
  finally have "1 / (x * 2) \<le> of_int (c - 1)" .
  then have "\<lceil>1 / (x * 2)\<rceil> \<le> c - 1" by (rule ceiling_le)
  then have "\<lceil>1 / (x * 2)\<rceil> < \<lceil>1 / x\<rceil>" unfolding c_def by simp
  moreover have "0 < \<lceil>1 / x\<rceil>" using big by linarith
  ultimately show "(x * 2, x) \<in> measure (\<lambda>x. nat \<lceil>1 / x\<rceil>)" by simp
qed

declare log2_up.simps [simp del] log2_down.simps [simp del]

text \<open>The exponent \<open>e\<close> with \<open>2 ^ e \<le> x < 2 ^ (e + 1)\<close>, for positive \<open>x\<close>.\<close>

definition binary_exponent :: "rat \<Rightarrow> int" where
  "binary_exponent x = (if 1 \<le> x then log2_up x else log2_down x)"

definition pow2 :: "int \<Rightarrow> rat" where
  "pow2 q = (if 0 \<le> q then 2 ^ nat q else 1 / 2 ^ nat (- q))"

definition round_ties_even :: "rat \<Rightarrow> int" where
  "round_ties_even x =
     (let f = \<lfloor>x\<rfloor>; d = x - of_int f
      in if d < 1 / 2 then f else if 1 / 2 < d then f + 1 else if even f then f else f + 1)"

text \<open>
  Rounding to binary64: 53 significant bits, the spacing never finer than \<open>2 ^ (- 1074)\<close>
  (the subnormal numbers).
\<close>

definition fl :: "rat \<Rightarrow> rat" where
  "fl x =
     (if x = 0 then 0
      else (let a = \<bar>x\<bar>; u = pow2 (max (binary_exponent a - 52) (- 1074))
            in sgn x * of_int (round_ties_even (a / u)) * u))"

text \<open>\<^verbatim>\<open>function metersToMiles(m) { return m / 1609.344; }\<close>, the same in both files.
  The literal denotes the binary64 value nearest to 1609.344.\<close>

definition metersToMiles :: "rat \<Rightarrow> rat" where
  "metersToMiles m = fl (m / fl (1609344 / 1000))"

subsection \<open>Number.prototype.toFixed(2) and parseFloat\<close>

definition digit_char :: "nat \<Rightarrow> char" where
  "digit_char d = ''0123456789'' ! d"

function decimal_digits :: "nat \<Rightarrow> string" where
  "decimal_digits n =
     (if n < 10 then [digit_char n] else decimal_digits (n div 10) @ [digit_char (n mod 10)])"
  by pat_completeness auto
termination
  by (relation "measure (\<lambda>n. n)") auto

declare decimal_digits.simps [simp del]

text \<open>
  The string a number is rendered as. \<open>Decimal s\<close> is the text \<open>s\<close>. From \<open>10 ^ 21\<close> on,
  \<^verbatim>\<open>toFixed\<close> returns the exponent notation of ECMAScript's Number::toString, which is
  not spelled out here: \<open>Exponential x\<close> stands for that rendering of \<open>x\<close>.
\<close>

datatype numstr = Decimal string | Exponential rat

text \<open>
  \<^verbatim>\<open>x.toFixed(2)\<close>: the sign is split off, then \<open>n\<close> is the integer for which
  \<open>n / 100\<close> is nearest to the value, the larger one of two; its digits are padded with
  zeros to three and the point goes before the last two.
\<close>

definition toFixed2 :: "rat \<Rightarrow> numstr" where
  "toFixed2 x =
     (let s = (if x < 0 then ''-'' else ''''); a = \<bar>x\<bar>
      in if 10 ^ 21 \<le> a then Exponential x
         else (let n = nat \<lfloor>a * 100 + 1 / 2\<rfloor>;
                   m = decimal_digits n;
                   m' = (if length m \<le> 2 then replicate (3 - length m) (CHR ''0'') @ m else m);
                   k = length m'
               in Decimal (s @ take (k - 2) m' @ ''.'' @ drop (k - 2) m')))"

text \<open>\<^verbatim>\<open>function formatMiles(miles) { return miles.toFixed(2); }\<close>\<close>

definition formatMiles :: "rat \<Rightarrow> numstr" where
  "formatMiles miles = toFixed2 miles"

definition digit_val :: "char \<Rightarrow> nat" where
  "digit_val c = of_char c - 48"

definition parse_digits :: "string \<Rightarrow> nat" where
  "parse_digits ds = foldl (\<lambda>acc c. 10 * acc + digit_val c) 0 ds"

text \<open>
  \<^verbatim>\<open>parseFloat\<close> on what \<^verbatim>\<open>toFixed\<close> returns: an optional sign, digits, a point,
  digits; the value read is rounded to binary64. The exponent notation reads back as the
  number it was printed from.
\<close>

fun parseFloat :: "numstr \<Rightarrow> rat" where
  "parseFloat (Exponential x) = x"
| "parseFloat (Decimal s) =
     (let neg = (take 1 s = ''-'');
          t = (if neg then drop 1 s else s);
          ip = takeWhile (\<lambda>c. c \<noteq> CHR ''.'') t;
          fp = drop (length ip + 1) t;
          v = of_nat (parse_digits ip) + of_nat (parse_digits fp) / 10 ^ length fp
      in fl (if neg then - v else v))"

section \<open>The batch script (generateMileageTable.js)\<close>

subsection \<open>Values, caches, requests\<close>

text \<open>
  The caches are whatever \<^verbatim>\<open>JSON.parse\<close> read from the cache files, so a cached
  coordinate is any JSON value. \<open>JBuiltin\<close> is a member inherited from
  \<^verbatim>\<open>Object.prototype\<close>, which a property read returns when the object has no own
  property of that name.
\<close>

datatype jsval =
    JNull
  | JBool bool
  | JNum rat
  | JStr string
  | JArr "jsval list"
  | JObj "(string \<times> jsval) list"
  | JBuiltin string

fun truthy :: "jsval \<Rightarrow> bool" where
  "truthy JNull = False"
| "truthy (JBool b) = b"
| "truthy (JNum n) = (n \<noteq> 0)"
| "truthy (JStr s) = (s \<noteq> [])"
| "truthy (JArr _) = True"
| "truthy (JObj _) = True"
| "truthy (JBuiltin _) = True"

definition object_prototype_names :: "string list" where
  "object_prototype_names =
     [''constructor'', ''__defineGetter__'', ''__defineSetter__'', ''hasOwnProperty'',
      ''__lookupGetter__'', ''__lookupSetter__'', ''isPrototypeOf'', ''propertyIsEnumerable'',
      ''toString'', ''valueOf'', ''__proto__'', ''toLocaleString'']"

text \<open>\<^verbatim>\<open>obj[k]\<close> on a plain object: \<open>None\<close> is \<^verbatim>\<open>undefined\<close>.\<close>

definition js_get :: "(string \<rightharpoonup> jsval) \<Rightarrow> string \<Rightarrow> jsval option" where
  "js_get obj k =
     (case obj k of
        Some v \<Rightarrow> Some v
      | None \<Rightarrow> if k \<in> set object_prototype_names then Some (JBuiltin k) else None)"

definition js_truthy :: "jsval option \<Rightarrow> bool" where
  "js_truthy v = (case v of None \<Rightarrow> False | Some w \<Rightarrow> truthy w)"

text \<open>
  A request is identified by what its URL is built from: the address, or the two
  coordinate values whose \<^verbatim>\<open>lon\<close> and \<^verbatim>\<open>lat\<close> are printed into the path.
\<close>

datatype request = GeocodeRequest string | RouteRequest jsval jsval

text \<open>
  What the service answers: a status that is not ok, or the document's list
  (\<^verbatim>\<open>features\<close> as the \<open>(lon, lat)\<close> centers, \<^verbatim>\<open>routes\<close> as the distances in meters);
  a missing list reads as the empty one. The answer may depend on the request and on how
  many requests were made before it.
\<close>

datatype geo_response = GeoHttpError | GeoOk "(rat \<times> rat) list"

datatype route_response = RouteHttpError | RouteOk "rat list"

record network =
  geo_net :: "nat \<Rightarrow> string \<Rightarrow> geo_response"
  route_net :: "nat \<Rightarrow> jsval \<Rightarrow> jsval \<Rightarrow> route_response"

datatype error = Error string | TypeError

text \<open>The two lines the script prints per item; the fixed banners are left out.\<close>

datatype log_line = GeocodingLine string string | RouteLine string string

text \<open>
  The route cache maps pair keys to meters, the numbers the script itself stores. The
  script reads it only at keys that contain \<open>|\<close>, none of which \<^verbatim>\<open>Object.prototype\<close>
  has, so a read is a plain lookup.
\<close>

record state =
  geoCache :: "string \<rightharpoonup> jsval"
  routeCache :: "string \<rightharpoonup> rat"
  requests :: "request list"
  console :: "log_line list"

subsection \<open>geocode and getMeters\<close>

definition geocode :: "network \<Rightarrow> string \<Rightarrow> state \<Rightarrow> (error + jsval) \<times> state" where
  "geocode net address s =
     (if js_truthy (js_get (geoCache s) address) then (Inr (the (js_get (geoCache s) address)), s)
      else (let rsp = geo_net net (length (requests s)) address;
                s1 = s\<lparr>requests := requests s @ [GeocodeRequest address]\<rparr>
            in case rsp of
                 GeoHttpError \<Rightarrow> (Inl (Error (''Geocode failed for '' @ address)), s1)
               | GeoOk [] \<Rightarrow> (Inl (Error (''No geocode match for '' @ address)), s1)
               | GeoOk ((lo, la) # _) \<Rightarrow>
                   (let c = JObj [(''lat'', JNum la), (''lon'', JNum lo)]
                    in (Inr c, s1\<lparr>geoCache := (geoCache s1)(address \<mapsto> c)\<rparr>))))"

text \<open>
  \<^verbatim>\<open>coordA.lon\<close> throws a TypeError when \<^verbatim>\<open>coordA\<close> is \<^verbatim>\<open>undefined\<close> or
  \<^verbatim>\<open>null\<close>; it is reached only after a cache miss.
\<close>

definition nullish :: "jsval option \<Rightarrow> bool" where
  "nullish v = (v = None \<or> v = Some JNull)"

definition getMeters ::
  "network \<Rightarrow> jsval option \<Rightarrow> jsval option \<Rightarrow> string \<Rightarrow> state \<Rightarrow> (error + rat) \<times> state" where
  "getMeters net coordA coordB pairKey s =
     (if (case routeCache s pairKey of None \<Rightarrow> False | Some m \<Rightarrow> m \<noteq> 0)
      then (Inr (the (routeCache s pairKey)), s)
      else if nullish coordA \<or> nullish coordB then (Inl TypeError, s)
      else (let a = the coordA; b = the coordB;
                rsp = route_net net (length (requests s)) a b;
                s1 = s\<lparr>requests := requests s @ [RouteRequest a b]\<rparr>
            in case rsp of
                 RouteHttpError \<Rightarrow> (Inl (Error (''Route lookup failed for '' @ pairKey)), s1)
               | RouteOk [] \<Rightarrow> (Inl (Error (''No route for '' @ pairKey)), s1)
               | RouteOk (meters # _) \<Rightarrow>
                   (Inr meters, s1\<lparr>routeCache := (routeCache s1)(pairKey \<mapsto> meters)\<rparr>)))"

subsection \<open>The main script\<close>

text \<open>
  \<^verbatim>\<open>LOCATION_ALIAS\<close> is the list of its entries in the order of \<^verbatim>\<open>Object.keys\<close>;
  the loop over the keys that reads \<^verbatim>\<open>LOCATION_ALIAS[key]\<close> is the loop over the entries.
\<close>

fun geocode_all ::
  "network \<Rightarrow> (string \<times> string) list \<Rightarrow> (string \<rightharpoonup> jsval) \<Rightarrow> state
     \<Rightarrow> (error + (string \<rightharpoonup> jsval)) \<times> state" where
  "geocode_all net [] coords s = (Inr coords, s)"
| "geocode_all net ((key, addr) # rest) coords s =
     (case geocode net addr (s\<lparr>console := console s @ [GeocodingLine key addr]\<rparr>) of
        (Inl e, s1) \<Rightarrow> (Inl e, s1)
      | (Inr c, s1) \<Rightarrow> geocode_all net rest (coords(key \<mapsto> c)) s1)"

text \<open>
  The table is a JavaScript object written by assignment: a new key goes to the end, an
  existing key keeps its place and takes the new value (\<open>AList.update\<close>).
\<close>

type_synonym table = "(string \<times> rat) list"

definition pair_body ::
  "network \<Rightarrow> string list \<Rightarrow> (string \<rightharpoonup> jsval) \<Rightarrow> nat \<Rightarrow> nat \<Rightarrow> table \<Rightarrow> state
     \<Rightarrow> (error + table) \<times> state" where
  "pair_body net keys coords i j tbl s =
     (let A = keys ! i; B = keys ! j; pairKey = A @ ''|'' @ B
      in case getMeters net (coords A) (coords B) pairKey
                (s\<lparr>console := console s @ [RouteLine A B]\<rparr>) of
           (Inl e, s1) \<Rightarrow> (Inl e, s1)
         | (Inr meters, s1) \<Rightarrow>
             (let miles = parseFloat (toFixed2 (metersToMiles meters))
              in (Inr (AList.update (B @ ''|'' @ A) miles
                         (AList.update (A @ ''|'' @ B) miles tbl)), s1)))"

function inner_loop ::
  "network \<Rightarrow> string list \<Rightarrow> (string \<rightharpoonup> jsval) \<Rightarrow> nat \<Rightarrow> nat \<Rightarrow> table \<Rightarrow> state
     \<Rightarrow> (error + table) \<times> state" where
  "inner_loop net keys coords i j tbl s =
     (if j < length keys
      then (case pair_body net keys coords i j tbl s of
              (Inl e, s1) \<Rightarrow> (Inl e, s1)
            | (Inr tbl1, s1) \<Rightarrow> inner_loop net keys coords i (Suc j) tbl1 s1)
      else (Inr tbl, s))"
  by pat_completeness auto
termination
  by (relation "measure (\<lambda>(net, keys, coords, i, j, tbl, s). length keys - j)") auto

function outer_loop ::
  "network \<Rightarrow> string list \<Rightarrow> (string \<rightharpoonup> jsval) \<Rightarrow> nat \<Rightarrow> table \<Rightarrow> state
     \<Rightarrow> (error + table) \<times> state" where
  "outer_loop net keys coords i tbl s =
     (if i < length keys
      then (case inner_loop net keys coords i (Suc i) tbl s of
              (Inl e, s1) \<Rightarrow> (Inl e, s1)
            | (Inr tbl1, s1) \<Rightarrow> outer_loop net keys coords (Suc i) tbl1 s1)
      else (Inr tbl, s))"
  by pat_completeness auto
termination
  by (relation "measure (\<lambda>(net, keys, coords, i, tbl, s). length keys - i)") auto

declare inner_loop.simps [simp del] outer_loop.simps [simp del]

text \<open>
  The three files of the script; \<open>None\<close> is a file that does not exist.
  \<^verbatim>\<open>loadCache\<close> returns the empty object for a missing file.
\<close>

record files =
  geoCacheFile :: "(string \<rightharpoonup> jsval) option"
  routeCacheFile :: "(string \<rightharpoonup> rat) option"
  outputFile :: "table option"

definition loadCache :: "('k \<rightharpoonup> 'v) option \<Rightarrow> ('k \<rightharpoonup> 'v)" where
  "loadCache f = (case f of None \<Rightarrow> Map.empty | Some c \<Rightarrow> c)"

text \<open>
  A run of the script: what it threw, if anything, the files it leaves, the requests it
  made and the lines it printed. The caches and the table are written only when nothing
  was thrown; \<^verbatim>\<open>saveCache\<close> overwrites a cache file with the whole cache.
\<close>

record outcome =
  thrown :: "error option"
  files_after :: files
  issued :: "request list"
  printed :: "log_line list"

definition initial_state :: "files \<Rightarrow> state" where
  "initial_state fs =
     \<lparr>geoCache = loadCache (geoCacheFile fs), routeCache = loadCache (routeCacheFile fs),
      requests = [], console = []\<rparr>"

definition main_script :: "network \<Rightarrow> (string \<times> string) list \<Rightarrow> files \<Rightarrow> outcome" where
  "main_script net locs fs =
     (case geocode_all net locs Map.empty (initial_state fs) of
        (Inl e, s1) \<Rightarrow>
          \<lparr>thrown = Some e, files_after = fs, issued = requests s1, printed = console s1\<rparr>
      | (Inr coords, s1) \<Rightarrow>
          (case outer_loop net (map fst locs) coords 0 [] s1 of
             (Inl e, s2) \<Rightarrow>
               \<lparr>thrown = Some e, files_after = fs, issued = requests s2, printed = console s2\<rparr>
           | (Inr tbl, s2) \<Rightarrow>
               \<lparr>thrown = None,
                files_after = \<lparr>geoCacheFile = Some (geoCache s2),
                               routeCacheFile = Some (routeCache s2),
                               outputFile = Some tbl\<rparr>,
                issued = requests s2, printed = console s2\<rparr>))"

subsection \<open>The pairs the loops visit\<close>

text \<open>
  The index pairs in the order of the two nested loops, and the loop body run over a list
  of index pairs: the loops are shown below to run the body over \<open>pair_indices\<close>.
\<close>

definition pair_indices :: "nat \<Rightarrow> (nat \<times> nat) list" where
  "pair_indices n = concat (map (\<lambda>i. map (Pair i) [Suc i..<n]) [0..<n])"

fun run_pairs ::
  "network \<Rightarrow> string list \<Rightarrow> (string \<rightharpoonup> jsval) \<Rightarrow> (nat \<times> nat) list \<Rightarrow> table \<Rightarrow> state
     \<Rightarrow> (error + table) \<times> state" where
  "run_pairs net keys coords [] tbl s = (Inr tbl, s)"
| "run_pairs net keys coords ((i, j) # ps) tbl s =
     (case pair_body net keys coords i j tbl s of
        (Inl e, s1) \<Rightarrow> (Inl e, s1)
      | (Inr tbl1, s1) \<Rightarrow> run_pairs net keys coords ps tbl1 s1)"

definition route_line :: "string list \<Rightarrow> nat \<times> nat \<Rightarrow> log_line" where
  "route_line keys p = RouteLine (keys ! fst p) (keys ! snd p)"

fun is_route_line :: "log_line \<Rightarrow> bool" where
  "is_route_line (RouteLine _ _) = True"
| "is_route_line (GeocodingLine _ _) = False"

text \<open>The lexicographic order on index pairs.\<close>

definition index_less :: "nat \<times> nat \<Rightarrow> nat \<times> nat \<Rightarrow> bool" where
  "index_less p q = (fst p < fst q \<or> (fst p = fst q \<and> snd p < snd q))"

subsection \<open>The table a run writes\<close>

text \<open>The value stored for a distance: \<^verbatim>\<open>parseFloat(metersToMiles(meters).toFixed(2))\<close>.\<close>

definition table_miles :: "rat \<Rightarrow> rat" where
  "table_miles meters = parseFloat (toFixed2 (metersToMiles meters))"

text \<open>The two keys of an index pair, and its two entries given the route cache.\<close>

definition pair_keys :: "string list \<Rightarrow> nat \<times> nat \<Rightarrow> string list" where
  "pair_keys keys p = [keys ! fst p @ ''|'' @ keys ! snd p, keys ! snd p @ ''|'' @ keys ! fst p]"

definition pair_entries ::
  "string list \<Rightarrow> (string \<rightharpoonup> rat) \<Rightarrow> nat \<times> nat \<Rightarrow> (string \<times> rat) list" where
  "pair_entries keys cache p =
     (let v = table_miles (the (cache (keys ! fst p @ ''|'' @ keys ! snd p)))
      in [(keys ! fst p @ ''|'' @ keys ! snd p, v), (keys ! snd p @ ''|'' @ keys ! fst p, v)])"

text \<open>
  Where the meters of a pair come from. \<open>cached_meters\<close> is the entry \<^verbatim>\<open>getMeters\<close> returns
  from the route cache, a number other than 0; \<open>first_route\<close> is \<^verbatim>\<open>data.routes[0].distance\<close>
  of an answer that has a route; \<open>route_requested\<close> says that among the requests made there
  is one for the route from \<open>a\<close> to \<open>b\<close> which the service answered with \<open>m\<close> meters.
\<close>

definition cached_meters :: "(string \<rightharpoonup> rat) \<Rightarrow> string \<Rightarrow> rat option" where
  "cached_meters cache pairKey =
     (case cache pairKey of None \<Rightarrow> None | Some m \<Rightarrow> if m \<noteq> 0 then Some m else None)"

definition first_route :: "route_response \<Rightarrow> rat option" where
  "first_route rsp = (case rsp of RouteOk (m # _) \<Rightarrow> Some m | _ \<Rightarrow> None)"

definition route_requested :: "network \<Rightarrow> request list \<Rightarrow> jsval \<Rightarrow> jsval \<Rightarrow> rat \<Rightarrow> bool" where
  "route_requested net reqs a b m =
     (\<exists>n < length reqs. reqs ! n = RouteRequest a b \<and> first_route (route_net net n a b) = Some m)"

text \<open>
  The same for the coordinates of an address: the truthy entry of the geocode cache, or
  the object built from the first match of an answer to a request for the address.
\<close>

definition cached_coordinate :: "(string \<rightharpoonup> jsval) \<Rightarrow> string \<Rightarrow> jsval option" where
  "cached_coordinate cache address =
     (if js_truthy (js_get cache address) then js_get cache address else None)"

definition first_center :: "geo_response \<Rightarrow> jsval option" where
  "first_center rsp =
     (case rsp of
        GeoOk ((lo, la) # _) \<Rightarrow> Some (JObj [(''lat'', JNum la), (''lon'', JNum lo)])
      | _ \<Rightarrow> None)"

definition geocode_requested :: "network \<Rightarrow> request list \<Rightarrow> string \<Rightarrow> jsval \<Rightarrow> bool" where
  "geocode_requested net reqs address v =
     (\<exists>n < length reqs. reqs ! n = GeocodeRequest address
        \<and> first_center (geo_net net n address) = Some v)"

definition both_orders :: "(nat \<times> nat) list \<Rightarrow> (nat \<times> nat) list" where
  "both_orders ps = concat (map (\<lambda>p. [p, (snd p, fst p)]) ps)"

text \<open>
  A table is symmetric when, for any two identifiers, the two directions hold the same
  value or are both absent.
\<close>

definition table_symmetric :: "string list \<Rightarrow> table \<Rightarrow> bool" where
  "table_symmetric keys tbl =
     (\<forall>A \<in> set keys. \<forall>B \<in> set keys. map_of tbl (A @ ''|'' @ B) = map_of tbl (B @ ''|'' @ A))"

subsection \<open>Example runs\<close>

definition no_files :: files where
  "no_files = \<lparr>geoCacheFile = None, routeCacheFile = None, outputFile = None\<rparr>"

definition three_locations :: "(string \<times> string) list" where
  "three_locations = [(''HOME'', ''1 Fake St''), (''LS'', ''2 Lake Rd''), (''OFFICE'', ''5 Corp Dr'')]"

definition two_locations :: "(string \<times> string) list" where
  "two_locations = [(''HOME'', ''1 Fake St''), (''LS'', ''2 Lake Rd'')]"

text \<open>Identifiers that contain the separator.\<close>

definition bar_locations :: "(string \<times> string) list" where
  "bar_locations = [(''a|b'', ''x''), (''b|a'', ''y''), (''a'', ''z'')]"

definition self_locations :: "(string \<times> string) list" where
  "self_locations = [(''A'', ''x''), (''A|A'', ''y'')]"

text \<open>A service that places every address and answers the \<open>n\<close>-th request with \<open>1000 * n\<close> meters.\<close>

definition fixed_network :: network where
  "fixed_network =
     \<lparr>geo_net = (\<lambda>n address. GeoOk [(- 89, 39 + of_nat (length address) / 100)]),
      route_net = (\<lambda>n a b. RouteOk [1000 * of_nat n])\<rparr>"



text \<open>Two identifiers for one address, and services for it: the distance between the two is 0.\<close>

definition same_address_locations :: "(string \<times> string) list" where
  "same_address_locations = [(''HOME'', ''5 Corp Dr''), (''OFFICE'', ''5 Corp Dr'')]"

definition zero_network :: network where
  "zero_network =
     \<lparr>geo_net = (\<lambda>n address. GeoOk [(- 89, 39)]), route_net = (\<lambda>n a b. RouteOk [0])\<rparr>"

definition steady_network :: network where
  "steady_network =
     \<lparr>geo_net = (\<lambda>n address. GeoOk [(- 89, 39)]), route_net = (\<lambda>n a b. RouteOk [1000])\<rparr>"

definition corp_dr :: jsval where
  "corp_dr = JObj [(''lat'', JNum 39), (''lon'', JNum (- 89))]"


section \<open>The interactive tool\<close>

subsection \<open>Reading the text area\<close>

text \<open>
  Strings are lists of 8-bit characters, so the text is taken to be Latin-1. Of the
  characters \<^verbatim>\<open>trim\<close> strips (white space and line terminators) these are the ones in
  that range: tab, line feed, vertical tab, form feed, carriage return, space and the
  no-break space.
\<close>

definition js_whitespace :: "char \<Rightarrow> bool" where
  "js_whitespace c = (c \<in> set [CHR 0x09, CHR 0x0A, CHR 0x0B, CHR 0x0C, CHR 0x0D, CHR 0x20, CHR 0xA0])"

definition trim :: "string \<Rightarrow> string" where
  "trim s = rev (dropWhile js_whitespace (rev (dropWhile js_whitespace s)))"

text \<open>\<^verbatim>\<open>value.split("\n")\<close>: the pieces between line feeds, one more than there are line feeds.\<close>

fun split_lines :: "string \<Rightarrow> string list" where
  "split_lines [] = [[]]"
| "split_lines (c # cs) =
     (if c = CHR 0x0A then [] # split_lines cs
      else (case split_lines cs of l # ls \<Rightarrow> (c # l) # ls | [] \<Rightarrow> [[c]]))"

text \<open>\<^verbatim>\<open>rawLines.map((l) => l.trim()).filter((l) => l.length > 0)\<close>\<close>

definition entered_locations :: "string \<Rightarrow> string list" where
  "entered_locations text = filter (\<lambda>l. 0 < length l) (map trim (split_lines text))"

subsection \<open>The service\<close>

text \<open>
  A response is a status that is not ok, or the document: the centers \<open>(lon, lat)\<close> of the
  \<^verbatim>\<open>features\<close>, or the \<^verbatim>\<open>routes\<close>, each with its distance and, when present, the
  distances of its legs. A missing list reads as the empty one.
\<close>

datatype geocoding_response = GeocodingHttp nat | GeocodingOk "(rat \<times> rat) list"

record route =
  distance :: rat
  legs :: "rat list option"

datatype directions_response = DirectionsHttp nat | DirectionsOk "route list"

text \<open>What \<^verbatim>\<open>geocodeAddress\<close> returns: \<^verbatim>\<open>{ address, lon, lat }\<close>.\<close>

record place =
  place_address :: string
  place_lon :: rat
  place_lat :: rat

text \<open>
  The answers may depend on the request and on its position among the requests. The
  geocoding requests are in flight together, so the service also decides when each one is
  answered: \<open>responded i\<close> is the time at which the response of the \<open>i\<close>-th request arrives
  (\<^verbatim>\<open>await fetch(url)\<close> returns) and \<open>parsed i\<close> the time at which its body has been read
  (\<^verbatim>\<open>await resp.json()\<close> returns).
\<close>

record web =
  geocoding_net :: "nat \<Rightarrow> string \<Rightarrow> geocoding_response"
  directions_net :: "nat \<Rightarrow> place list \<Rightarrow> directions_response"
  responded :: "nat \<Rightarrow> nat"
  parsed :: "nat \<Rightarrow> nat"

datatype fetch = FetchGeocoding string | FetchDirections "place list"

text \<open>The message of the error thrown, or the value returned.\<close>

definition geocodeAddress :: "web \<Rightarrow> nat \<Rightarrow> string \<Rightarrow> string + place" where
  "geocodeAddress w n addr =
     (case geocoding_net w n addr of
        GeocodingHttp status \<Rightarrow>
          Inl (''Geocoding failed for '' @ [CHR 0x22] @ addr @ [CHR 0x22] @ '' (HTTP ''
               @ decimal_digits status @ '')'')
      | GeocodingOk [] \<Rightarrow> Inl (''No match found for '' @ [CHR 0x22] @ addr @ [CHR 0x22])
      | GeocodingOk ((lo, la) # _) \<Rightarrow>
          Inr \<lparr>place_address = addr, place_lon = lo, place_lat = la\<rparr>)"

definition getRoute :: "web \<Rightarrow> nat \<Rightarrow> place list \<Rightarrow> string + route" where
  "getRoute w n coordinates =
     (case directions_net w n coordinates of
        DirectionsHttp status \<Rightarrow> Inl (''Directions failed (HTTP '' @ decimal_digits status @ '')'')
      | DirectionsOk [] \<Rightarrow> Inl ''No route found for given locations''
      | DirectionsOk (r # _) \<Rightarrow> Inr r)"

subsection \<open>The page\<close>

text \<open>
  A row of the legs table is a \<^verbatim>\<open>tr\<close> element whose \<^verbatim>\<open>innerHTML\<close> is set to a template of
  four \<^verbatim>\<open>td\<close> elements. The record holds the four values interpolated into the template:
  it is the markup the row is given, not yet what the row shows.
\<close>

record row =
  row_index :: nat
  row_from :: string
  row_to :: string
  row_miles :: numstr

text \<open>
  The template is parsed as HTML, and the addresses are interpolated as they were typed.
  An address without \<open><\<close>, \<open>&\<close>, NUL and carriage return is character data: the parser
  puts it into the cell unchanged. Any other address is read as markup (tags, comments,
  character references), and what the parser makes of the row is not modelled: the cells
  of such a row are \<open>None\<close>. The index and the miles are digits, a point and a sign.
\<close>

definition plain_text :: "string \<Rightarrow> bool" where
  "plain_text s = list_all (\<lambda>c. c \<notin> set [CHR ''<'', CHR ''&'', CHR 0x00, CHR 0x0D]) s"

definition shown_cells :: "row \<Rightarrow> (string \<times> string \<times> string \<times> numstr) option" where
  "shown_cells r =
     (if plain_text (row_from r) \<and> plain_text (row_to r)
      then Some (decimal_digits (row_index r), row_from r, row_to r, row_miles r)
      else None)"

text \<open>
  The page after the handler has run: the status line and whether it is marked as an
  error (both set through \<^verbatim>\<open>textContent\<close> and the class list, so shown as they are),
  whether the results are hidden, the rows appended to the legs table, and the number in
  \<^verbatim>\<open>Total distance: ... miles\<close> (\<open>None\<close> for the empty text). The button is enabled
  again on every path that disabled it, and is left out.
\<close>

record page =
  status :: string
  is_error :: bool
  results_hidden :: bool
  table_rows :: "row list"
  total_miles :: "numstr option"

definition rejected :: "string \<Rightarrow> row list \<Rightarrow> page" where
  "rejected message rows =
     \<lparr>status = message, is_error = True, results_hidden = True, table_rows = rows,
      total_miles = None\<rparr>"

text \<open>
  \<^verbatim>\<open>geocodeAddress\<close> rejects for a bad status as soon as the response has arrived, and
  for an empty list of matches once the body has been read.
\<close>

definition rejection_time :: "web \<Rightarrow> nat \<Rightarrow> string \<Rightarrow> nat" where
  "rejection_time w n addr =
     (case geocoding_net w n addr of GeocodingHttp _ \<Rightarrow> responded w n | GeocodingOk _ \<Rightarrow> parsed w n)"

text \<open>
  \<^verbatim>\<open>Promise.all\<close> rejects with the rejection that happens first in time, whatever its
  position in the list; of two at the same time the one of the earlier request was
  queued first. \<open>None\<close> when every promise is fulfilled.
\<close>

definition first_rejection :: "web \<Rightarrow> string list \<Rightarrow> (string + place) list \<Rightarrow> string option" where
  "first_rejection w locations results =
     (let rejections = filter (\<lambda>i. isl (results ! i)) [0..<length results]
      in if rejections = [] then None
         else Some (projl (results !
                      arg_min_list (\<lambda>i. rejection_time w i (locations ! i)) rejections)))"

fun fulfilled :: "(string + place) list \<Rightarrow> place list" where
  "fulfilled [] = []"
| "fulfilled (Inl _ # rs) = fulfilled rs"
| "fulfilled (Inr p # rs) = p # fulfilled rs"

text \<open>The fallback loop: \<^verbatim>\<open>for (let i = 0; i < geocoded.length - 1; i++)\<close>.\<close>

definition fallback_rows :: "place list \<Rightarrow> rat \<Rightarrow> row list" where
  "fallback_rows geocoded totalMeters =
     map (\<lambda>i. \<lparr>row_index = i + 1,
               row_from = place_address (geocoded ! i),
               row_to = place_address (geocoded ! (i + 1)),
               row_miles = formatMiles (metersToMiles totalMeters)\<rparr>)
       [0..<length geocoded - 1]"

text \<open>
  \<^verbatim>\<open>legs.forEach((leg, idx) => ...)\<close>: the rows appended, and the TypeError of reading
  \<^verbatim>\<open>geocoded[idx + 1].address\<close> past the end, which stops the loop (the message is V8's).
\<close>

fun leg_rows :: "place list \<Rightarrow> nat \<Rightarrow> rat list \<Rightarrow> row list \<times> string option" where
  "leg_rows geocoded idx [] = ([], None)"
| "leg_rows geocoded idx (leg # rest) =
     (if idx + 1 < length geocoded
      then (case leg_rows geocoded (idx + 1) rest of
              (rows, err) \<Rightarrow>
                (\<lparr>row_index = idx + 1,
                  row_from = place_address (geocoded ! idx),
                  row_to = place_address (geocoded ! (idx + 1)),
                  row_miles = formatMiles (metersToMiles leg)\<rparr> # rows, err))
      else ([], Some ''Cannot read properties of undefined (reading 'address')''))"

text \<open>
  What the page shows for a route: the rows of its legs, or the fallback rows when it has
  no legs, and the total. A TypeError inside \<^verbatim>\<open>forEach\<close> leaves the rows appended so far
  and the results hidden.
\<close>

definition show_route :: "place list \<Rightarrow> route \<Rightarrow> page" where
  "show_route geocoded route =
     (let totalMeters = distance route;
          totalMiles = metersToMiles totalMeters;
          legs = (case legs route of None \<Rightarrow> [] | Some ls \<Rightarrow> ls)
      in if length legs = 0
         then \<lparr>status = ''Done.'', is_error = False, results_hidden = False,
                table_rows = fallback_rows geocoded totalMeters,
                total_miles = Some (formatMiles totalMiles)\<rparr>
         else (case leg_rows geocoded 0 legs of
                 (rows, Some message) \<Rightarrow> rejected message rows
               | (rows, None) \<Rightarrow>
                   \<lparr>status = ''Done.'', is_error = False, results_hidden = False,
                     table_rows = rows, total_miles = Some (formatMiles totalMiles)\<rparr>))"

text \<open>The locations of the route: the entered ones, and the first again for a round trip.\<close>

definition route_locations :: "string \<Rightarrow> bool \<Rightarrow> string list" where
  "route_locations text roundTrip =
     (let locations = entered_locations text
      in if roundTrip then locations @ [locations ! 0] else locations)"

text \<open>\<^verbatim>\<open>locations.map((loc) => geocodeAddress(loc))\<close>: every request is made.\<close>

definition geocode_results :: "web \<Rightarrow> string list \<Rightarrow> (string + place) list" where
  "geocode_results w locations =
     map (\<lambda>i. geocodeAddress w i (locations ! i)) [0..<length locations]"

text \<open>
  The handler: the page it leaves and the requests it made. The token is the constant
  \<^verbatim>\<open>MAPBOX_TOKEN\<close> of the file, which the operator replaces.
\<close>

definition calculateMileage :: "web \<Rightarrow> string \<Rightarrow> string \<Rightarrow> bool \<Rightarrow> page \<times> fetch list" where
  "calculateMileage w token text roundTrip =
     (if length (entered_locations text) < 2
      then (rejected ''Enter at least two locations.'' [], [])
      else if token = [] \<or> token = ''YOUR_MAPBOX_ACCESS_TOKEN_HERE''
      then (rejected ''You need to set your Mapbox token in app.js before this will work.'' [], [])
      else (let locations = route_locations text roundTrip;
                results = geocode_results w locations;
                fetches = map FetchGeocoding locations
            in case first_rejection w locations results of
                 Some message \<Rightarrow> (rejected message [], fetches)
               | None \<Rightarrow>
                   (let geocoded = fulfilled results
                    in case getRoute w (length locations) geocoded of
                         Inl message \<Rightarrow> (rejected message [], fetches @ [FetchDirections geocoded])
                       | Inr route \<Rightarrow>
                           (show_route geocoded route, fetches @ [FetchDirections geocoded]))))"

subsection \<open>Example pages\<close>

text \<open>A service whose route has no legs, and one whose route has two.\<close>

definition street_web :: web where
  "street_web =
     \<lparr>geocoding_net = (\<lambda>n addr. GeocodingOk [(- 89, 39 + of_nat n / 100)]),
      directions_net = (\<lambda>n ps. DirectionsOk [\<lparr>distance = 5000, legs = Some []\<rparr>]),
      responded = (\<lambda>n. n), parsed = (\<lambda>n. n + 1)\<rparr>"


definition legs_web :: web where
  "legs_web =
     \<lparr>geocoding_net = (\<lambda>n addr. GeocodingOk [(- 89, 39 + of_nat n / 100)]),
      directions_net = (\<lambda>n ps. DirectionsOk [\<lparr>distance = 3000, legs = Some [1000, 2000]\<rparr>]),
      responded = (\<lambda>n. n), parsed = (\<lambda>n. n + 1)\<rparr>"

text \<open>
  A service that answers the first address with no match and the second with status 500,
  all responses arriving together: the bad status is known before any body is read.
\<close>

definition failing_web :: web where
  "failing_web =
     \<lparr>geocoding_net = (\<lambda>n addr. if n = 0 then GeocodingOk [] else GeocodingHttp 500),
      directions_net = (\<lambda>n ps. DirectionsOk []),
      responded = (\<lambda>n. 0), parsed = (\<lambda>n. 1)\<rparr>"

definition three_lines :: string where
  "three_lines = ''1 Fake St'' @ [CHR 0x0A] @ '' 2 Lake Rd '' @ [CHR 0x0A, CHR 0x0A] @ ''5 Corp Dr''"

definition one_line :: string where
  "one_line = ''1 Fake St'' @ [CHR 0x0A] @ ''   '' @ [CHR 0x0A]"

section \<open>Properties of the batch script\<close>

lemma run_pairs_append:
  "run_pairs net keys coords (ps @ qs) tbl s =
     (case run_pairs net keys coords ps tbl s of
        (Inl e, s1) \<Rightarrow> (Inl e, s1)
      | (Inr tbl1, s1) \<Rightarrow> run_pairs net keys coords qs tbl1 s1)"
  by (induction ps arbitrary: tbl s) (auto split: prod.splits sum.splits)

lemma inner_loop_run:
  "inner_loop net keys coords i j tbl s =
     run_pairs net keys coords (map (Pair i) [j..<length keys]) tbl s"
proof (induction net keys coords i j tbl s rule: inner_loop.induct)
  case (1 net keys coords i j tbl s)
  show ?case
  proof (cases "j < length keys")
    case True
    then have upt: "[j..<length keys] = j # [Suc j..<length keys]"
      by (simp add: upt_conv_Cons)
    show ?thesis
      using True 1
      by (subst inner_loop.simps) (auto simp: upt split: prod.splits sum.splits)
  next
    case False
    then show ?thesis by (subst inner_loop.simps) simp
  qed
qed

lemma outer_loop_run:
  "outer_loop net keys coords i tbl s =
     run_pairs net keys coords
       (concat (map (\<lambda>i. map (Pair i) [Suc i..<length keys]) [i..<length keys])) tbl s"
proof (induction net keys coords i tbl s rule: outer_loop.induct)
  case (1 net keys coords i tbl s)
  show ?case
  proof (cases "i < length keys")
    case True
    then have upt: "[i..<length keys] = i # [Suc i..<length keys]"
      by (simp add: upt_conv_Cons)
    show ?thesis
      using True 1
      by (subst outer_loop.simps)
         (auto simp: upt run_pairs_append inner_loop_run split: prod.splits sum.splits)
  next
    case False
    then show ?thesis by (subst outer_loop.simps) simp
  qed
qed

lemma outer_loop_pair_indices:
  "outer_loop net keys coords 0 tbl s = run_pairs net keys coords (pair_indices (length keys)) tbl s"
  by (simp add: outer_loop_run pair_indices_def)

lemma getMeters_Inr:
  assumes "getMeters net a b k s = (Inr m, s1)"
  shows "routeCache s1 k = Some m"
    and "\<And>k'. k' \<noteq> k \<Longrightarrow> routeCache s1 k' = routeCache s k'"
    and "geoCache s1 = geoCache s" and "console s1 = console s"
  using assms
  by (auto simp: getMeters_def Let_def split: if_splits option.splits route_response.splits list.splits)

lemma getMeters_console: "console (snd (getMeters net a b k s)) = console s"
  by (auto simp: getMeters_def Let_def split: option.splits route_response.splits list.splits)

lemma pair_body_console:
  "console (snd (pair_body net keys coords i j tbl s)) = console s @ [RouteLine (keys ! i) (keys ! j)]"
proof -
  let ?s0 = "s\<lparr>console := console s @ [RouteLine (keys ! i) (keys ! j)]\<rparr>"
  let ?g = "getMeters net (coords (keys ! i)) (coords (keys ! j)) (keys ! i @ ''|'' @ keys ! j) ?s0"
  have "console (snd (pair_body net keys coords i j tbl s)) = console (snd ?g)"
    by (cases ?g) (auto simp: pair_body_def Let_def split: sum.splits)
  then show ?thesis by (simp add: getMeters_console)
qed

lemma run_pairs_console:
  "\<exists>k \<le> length ps.
     console (snd (run_pairs net keys coords ps tbl s)) = console s @ map (route_line keys) (take k ps)
     \<and> (isl (fst (run_pairs net keys coords ps tbl s)) \<or> k = length ps)"
proof (induction ps arbitrary: tbl s)
  case Nil
  then show ?case by simp
next
  case (Cons p ps)
  obtain i j where p: "p = (i, j)" by (cases p)
  obtain r s1 where pb: "pair_body net keys coords i j tbl s = (r, s1)"
    by (cases "pair_body net keys coords i j tbl s")
  have c1: "console s1 = console s @ [route_line keys p]"
    using pair_body_console [of net keys coords i j tbl s] pb p by (simp add: route_line_def)
  show ?case
  proof (cases r)
    case (Inl e)
    then have "console (snd (run_pairs net keys coords (p # ps) tbl s))
                 = console s @ map (route_line keys) (take 1 (p # ps))
               \<and> isl (fst (run_pairs net keys coords (p # ps) tbl s))"
      using pb p c1 by simp
    then show ?thesis by (intro exI [of _ 1]) simp
  next
    case (Inr t1)
    from Cons.IH [of t1 s1] obtain k where k: "k \<le> length ps"
      "console (snd (run_pairs net keys coords ps t1 s1)) = console s1 @ map (route_line keys) (take k ps)"
      "isl (fst (run_pairs net keys coords ps t1 s1)) \<or> k = length ps"
      by blast
    have "run_pairs net keys coords (p # ps) tbl s = run_pairs net keys coords ps t1 s1"
      using pb p Inr by simp
    then show ?thesis
      using k c1 by (intro exI [of _ "Suc k"]) auto
  qed
qed


lemma geocode_console: "console (snd (geocode net a s)) = console s"
  by (auto simp: geocode_def Let_def split: geo_response.splits list.splits)

lemma geocode_all_route_lines:
  "filter is_route_line (console (snd (geocode_all net locs coords s))) = filter is_route_line (console s)"
proof (induction locs arbitrary: coords s)
  case Nil
  then show ?case by simp
next
  case (Cons p locs)
  obtain key addr where p: "p = (key, addr)" by (cases p)
  let ?s0 = "s\<lparr>console := console s @ [GeocodingLine key addr]\<rparr>"
  obtain r s1 where g: "geocode net addr ?s0 = (r, s1)" by (cases "geocode net addr ?s0")
  have c1: "console s1 = console s @ [GeocodingLine key addr]"
    using geocode_console [of net addr ?s0] g by simp
  show ?case
  proof (cases r)
    case (Inl e)
    then show ?thesis using p g c1 by simp
  next
    case (Inr c)
    then have step: "geocode_all net (p # locs) coords s = geocode_all net locs (coords(key \<mapsto> c)) s1"
      using p g by simp
    show ?thesis unfolding step Cons.IH c1 by simp
  qed
qed

lemma set_pairs_from:
  "set (concat (map (\<lambda>i. map (Pair i) [Suc i..<n]) [m..<n])) = {(i, j). m \<le> i \<and> i < j \<and> j < n}"
  by (force simp: image_iff)

lemma set_pair_indices: "set (pair_indices n) = {(i, j). i < j \<and> j < n}"
  by (simp add: pair_indices_def set_pairs_from del: set_concat)

lemma sorted_pairs_from:
  "sorted_wrt index_less (concat (map (\<lambda>i. map (Pair i) [Suc i..<n]) [m..<n]))"
proof (induction "n - m" arbitrary: m)
  case 0
  then show ?case by simp
next
  case (Suc d)
  then have mn: "m < n" and d: "d = n - Suc m" by auto
  have upt: "[m..<n] = m # [Suc m..<n]" using mn by (simp add: upt_conv_Cons)
  have row: "sorted_wrt index_less (map (Pair m) [Suc m..<n])"
    by (simp add: sorted_wrt_map index_less_def)
  have cross: "\<forall>x \<in> set (map (Pair m) [Suc m..<n]).
                 \<forall>y \<in> set (concat (map (\<lambda>i. map (Pair i) [Suc i..<n]) [Suc m..<n])). index_less x y"
    unfolding set_pairs_from by (auto simp: index_less_def)
  show ?case
    unfolding upt using row cross Suc.hyps(1) [OF d]
    by (simp add: sorted_wrt_append del: set_concat set_map)
qed

lemma sorted_pair_indices: "sorted_wrt index_less (pair_indices n)"
  by (simp add: pair_indices_def sorted_pairs_from)

lemma sorted_wrt_irrefl_distinct:
  "sorted_wrt R xs \<Longrightarrow> (\<And>x. \<not> R x x) \<Longrightarrow> distinct xs"
  by (induction xs) auto

lemma distinct_pair_indices: "distinct (pair_indices n)"
  by (rule sorted_wrt_irrefl_distinct [OF sorted_pair_indices]) (simp add: index_less_def)

lemma length_pairs_from:
  "m \<le> n \<Longrightarrow> 2 * length (concat (map (\<lambda>i. map (Pair i) [Suc i..<n]) [m..<n])) = (n - m) * (n - m - 1)"
proof (induction "n - m" arbitrary: m)
  case 0
  then show ?case by simp
next
  case (Suc d)
  then have mn: "m < n" and d: "d = n - Suc m" by auto
  have upt: "[m..<n] = m # [Suc m..<n]" using mn by (simp add: upt_conv_Cons)
  have IH: "2 * length (concat (map (\<lambda>i. map (Pair i) [Suc i..<n]) [Suc m..<n])) = d * (d - 1)"
    using Suc.hyps(1) [OF d] mn d by simp
  have len: "length (concat (map (\<lambda>i. map (Pair i) [Suc i..<n]) [m..<n]))
               = d + length (concat (map (\<lambda>i. map (Pair i) [Suc i..<n]) [Suc m..<n]))"
    unfolding upt by (simp add: d)
  have rhs: "(n - m) * (n - m - 1) = Suc d * d"
    using Suc.hyps(2) by (metis diff_Suc_1)
  have "2 * (d + length (concat (map (\<lambda>i. map (Pair i) [Suc i..<n]) [Suc m..<n]))) = Suc d * d"
    using IH by (cases d) simp_all
  then show ?case unfolding len rhs .
qed

lemma length_pair_indices: "2 * length (pair_indices n) = n * (n - 1)"
  using length_pairs_from [of 0 n] by (simp add: pair_indices_def)


lemma main_script_geocode_fails:
  "geocode_all net locs Map.empty (initial_state fs) = (Inl e, s1) \<Longrightarrow>
   main_script net locs fs
     = \<lparr>thrown = Some e, files_after = fs, issued = requests s1, printed = console s1\<rparr>"
  by (simp add: main_script_def initial_state_def)

lemma main_script_route_fails:
  "geocode_all net locs Map.empty (initial_state fs) = (Inr coords, s1) \<Longrightarrow>
   outer_loop net (map fst locs) coords 0 [] s1 = (Inl e, s2) \<Longrightarrow>
   main_script net locs fs
     = \<lparr>thrown = Some e, files_after = fs, issued = requests s2, printed = console s2\<rparr>"
  by (simp add: main_script_def initial_state_def)

lemma main_script_succeeds:
  "geocode_all net locs Map.empty (initial_state fs) = (Inr coords, s1) \<Longrightarrow>
   outer_loop net (map fst locs) coords 0 [] s1 = (Inr tbl, s2) \<Longrightarrow>
   main_script net locs fs
     = \<lparr>thrown = None,
        files_after = \<lparr>geoCacheFile = Some (geoCache s2), routeCacheFile = Some (routeCache s2),
                       outputFile = Some tbl\<rparr>,
        issued = requests s2, printed = console s2\<rparr>"
  by (simp add: main_script_def initial_state_def)

lemma run_pairs_route_lines:
  assumes "filter is_route_line (console s) = []"
  shows "\<exists>k. k \<le> length ps
     \<and> filter is_route_line (console (snd (run_pairs net keys coords ps tbl s)))
           = map (route_line keys) (take k ps)
     \<and> (isl (fst (run_pairs net keys coords ps tbl s)) \<or> k = length ps)"
proof -
  obtain k where k: "k \<le> length ps"
      "console (snd (run_pairs net keys coords ps tbl s)) = console s @ map (route_line keys) (take k ps)"
      "isl (fst (run_pairs net keys coords ps tbl s)) \<or> k = length ps"
    using run_pairs_console [of ps net keys coords tbl s] by blast
  have all: "filter is_route_line (map (route_line keys) (take k ps)) = map (route_line keys) (take k ps)"
    by (rule filter_True) (auto simp: route_line_def)
  have "filter is_route_line (console (snd (run_pairs net keys coords ps tbl s)))
          = map (route_line keys) (take k ps)"
    unfolding k(2) filter_append assms all by simp
  then show ?thesis using k(1) k(3) by blast
qed

lemma main_script_route_lines:
  "\<exists>k. k \<le> length (pair_indices (length locs))
     \<and> filter is_route_line (printed (main_script net locs fs))
           = map (route_line (map fst locs)) (take k (pair_indices (length locs)))
     \<and> (thrown (main_script net locs fs) = None \<longrightarrow> k = length (pair_indices (length locs)))"
proof -
  let ?ps = "pair_indices (length locs)"
  let ?keys = "map fst locs"
  obtain r s1 where g: "geocode_all net locs Map.empty (initial_state fs) = (r, s1)"
    by (cases "geocode_all net locs Map.empty (initial_state fs)")
  have none1: "filter is_route_line (console s1) = []"
    using geocode_all_route_lines [of net locs Map.empty "initial_state fs"] g
    by (simp add: initial_state_def)
  show ?thesis
  proof (cases r)
    case (Inl e)
    have m: "main_script net locs fs
               = \<lparr>thrown = Some e, files_after = fs, issued = requests s1, printed = console s1\<rparr>"
      using g Inl by (simp add: main_script_geocode_fails)
    show ?thesis unfolding m by (intro exI [of _ 0]) (simp add: none1)
  next
    case (Inr coords)
    let ?run = "run_pairs net ?keys coords ?ps [] s1"
    have ol: "outer_loop net ?keys coords 0 [] s1 = ?run"
      using outer_loop_pair_indices [of net ?keys coords "[]" s1] by simp
    obtain k where k: "k \<le> length ?ps"
        "filter is_route_line (console (snd ?run)) = map (route_line ?keys) (take k ?ps)"
        "isl (fst ?run) \<or> k = length ?ps"
      using run_pairs_route_lines [OF none1, of ?ps net ?keys coords "[]"] by blast
    obtain r2 s2 where run: "?run = (r2, s2)" by (cases ?run)
    show ?thesis
    proof (cases r2)
      case (Inl e)
      have m: "main_script net locs fs
               = \<lparr>thrown = Some e, files_after = fs, issued = requests s2, printed = console s2\<rparr>"
        using g \<open>r = Inr coords\<close> ol run Inl by (simp add: main_script_route_fails)
      show ?thesis unfolding m using k(1) k(2) run by (intro exI [of _ k]) simp
    next
      case (Inr tbl)
      have m: "printed (main_script net locs fs) = console s2"
        using g \<open>r = Inr coords\<close> ol run Inr by (simp add: main_script_succeeds)
      have "k = length ?ps" using k(3) run Inr by simp
      then show ?thesis unfolding m using k(1) k(2) run by (intro exI [of _ k]) simp
    qed
  qed
qed


text \<open>A run that throws nothing: three locations, no cache files, every request answered.\<close>

lemma fixed_run_ok: "thrown (main_script fixed_network three_locations no_files) = None"
  by code_simp

text \<open>
  C6. The pair loop visits the index pairs \<open>(i, j)\<close> with \<open>i < j\<close> below the number of
  locations, each exactly once, in ascending lexicographic order, none with \<open>i = j\<close>: the
  route lines the script prints are those of an initial segment of that list of pairs, and
  of the whole list when the run throws nothing. The list has \<open>N * (N - 1) / 2\<close> pairs.
\<close>

theorem pair_enumerator_order:
  "\<exists>ps k. k \<le> length ps
     \<and> filter is_route_line (printed (main_script net locs fs))
           = map (route_line (map fst locs)) (take k ps)
     \<and> (thrown (main_script net locs fs) = None \<longrightarrow> k = length ps)
     \<and> set ps = {(i, j). i < j \<and> j < length locs}
     \<and> distinct ps
     \<and> sorted_wrt index_less ps
     \<and> 2 * length ps = length locs * (length locs - 1)"
proof -
  let ?ps = "pair_indices (length locs)"
  from main_script_route_lines [of locs net fs] obtain k where k: "k \<le> length ?ps
     \<and> filter is_route_line (printed (main_script net locs fs))
           = map (route_line (map fst locs)) (take k ?ps)
     \<and> (thrown (main_script net locs fs) = None \<longrightarrow> k = length ?ps)" ..
  show ?thesis
  proof (rule exI [of _ ?ps], rule exI [of _ k], intro conjI)
    show "k \<le> length ?ps" using k by (rule conjunct1)
    show "filter is_route_line (printed (main_script net locs fs))
            = map (route_line (map fst locs)) (take k ?ps)"
      using k by (elim conjE)
    show "thrown (main_script net locs fs) = None \<longrightarrow> k = length ?ps"
      using k by (elim conjE)
    show "set ?ps = {(i, j). i < j \<and> j < length locs}" by (rule set_pair_indices)
    show "distinct ?ps" by (rule distinct_pair_indices)
    show "sorted_wrt index_less ?ps" by (rule sorted_pair_indices)
    show "2 * length ?ps = length locs * (length locs - 1)" by (rule length_pair_indices)
  qed
qed

theorem pair_enumerator_order_witness:
  "thrown (main_script fixed_network three_locations no_files) = None
   \<and> (\<exists>ps. filter is_route_line (printed (main_script fixed_network three_locations no_files))
                = map (route_line (map fst three_locations)) ps
          \<and> set ps = {(i, j). i < j \<and> j < 3}
          \<and> distinct ps \<and> sorted_wrt index_less ps \<and> length ps = 3)"
proof -
  have ok: "thrown (main_script fixed_network three_locations no_files) = None"
    by (rule fixed_run_ok)
  have n: "length three_locations = 3" by (simp add: three_locations_def)
  from pair_enumerator_order [of fixed_network three_locations no_files]
  obtain ps where "\<exists>k. k \<le> length ps
     \<and> filter is_route_line (printed (main_script fixed_network three_locations no_files))
           = map (route_line (map fst three_locations)) (take k ps)
     \<and> (thrown (main_script fixed_network three_locations no_files) = None \<longrightarrow> k = length ps)
     \<and> set ps = {(i, j). i < j \<and> j < length three_locations}
     \<and> distinct ps
     \<and> sorted_wrt index_less ps
     \<and> 2 * length ps = length three_locations * (length three_locations - 1)" ..
  then obtain k where p: "k \<le> length ps
     \<and> filter is_route_line (printed (main_script fixed_network three_locations no_files))
           = map (route_line (map fst three_locations)) (take k ps)
     \<and> (thrown (main_script fixed_network three_locations no_files) = None \<longrightarrow> k = length ps)
     \<and> set ps = {(i, j). i < j \<and> j < length three_locations}
     \<and> distinct ps
     \<and> sorted_wrt index_less ps
     \<and> 2 * length ps = length three_locations * (length three_locations - 1)" ..
  have k: "k = length ps" using p ok by (elim conjE) simp
  have routes: "filter is_route_line (printed (main_script fixed_network three_locations no_files))
           = map (route_line (map fst three_locations)) ps"
    using p unfolding k by (elim conjE) simp
  have st: "set ps = {(i, j). i < j \<and> j < 3}" using p unfolding n by (elim conjE)
  have d: "distinct ps" using p by (elim conjE)
  have so: "sorted_wrt index_less ps" using p by (elim conjE)
  have "2 * length ps = 3 * (3 - 1)" using p unfolding n by (elim conjE)
  then have l: "length ps = 3" by simp
  show ?thesis
  proof (intro conjI, rule ok, rule exI [of _ ps], intro conjI)
    show "filter is_route_line (printed (main_script fixed_network three_locations no_files))
           = map (route_line (map fst three_locations)) ps" by (rule routes)
    show "set ps = {(i, j). i < j \<and> j < 3}" by (rule st)
    show "distinct ps" by (rule d)
    show "sorted_wrt index_less ps" by (rule so)
    show "length ps = 3" by (rule l)
  qed
qed

lemma join_inj:
  "CHR ''|'' \<notin> set A \<Longrightarrow> CHR ''|'' \<notin> set C \<Longrightarrow> A @ ''|'' @ B = C @ ''|'' @ D \<Longrightarrow> A = C \<and> B = D"
proof (induction A arbitrary: C)
  case Nil
  then show ?case by (cases C) auto
next
  case (Cons a A)
  then show ?case by (cases C) auto
qed

lemma update_fresh: "k \<notin> fst ` set al \<Longrightarrow> AList.update k v al = al @ [(k, v)]"
  by (induction al) auto

lemma pair_body_Inr:
  assumes "pair_body net keys coords i j tbl s = (Inr tbl1, s1)"
  shows "\<exists>m. routeCache s1 (keys ! i @ ''|'' @ keys ! j) = Some m
           \<and> tbl1 = AList.update (keys ! j @ ''|'' @ keys ! i) (table_miles m)
                      (AList.update (keys ! i @ ''|'' @ keys ! j) (table_miles m) tbl)"
    and "\<And>k. k \<noteq> keys ! i @ ''|'' @ keys ! j \<Longrightarrow> routeCache s1 k = routeCache s k"
    and "geoCache s1 = geoCache s"
proof -
  let ?s0 = "s\<lparr>console := console s @ [RouteLine (keys ! i) (keys ! j)]\<rparr>"
  let ?g = "getMeters net (coords (keys ! i)) (coords (keys ! j)) (keys ! i @ ''|'' @ keys ! j) ?s0"
  obtain r s' where g: "?g = (r, s')" by (cases ?g)
  from assms g obtain m where r: "r = Inr m" and s1: "s1 = s'"
    and t: "tbl1 = AList.update (keys ! j @ ''|'' @ keys ! i) (table_miles m)
                      (AList.update (keys ! i @ ''|'' @ keys ! j) (table_miles m) tbl)"
    by (cases r) (auto simp: pair_body_def Let_def table_miles_def)
  have gm: "?g = (Inr m, s1)" using g r s1 by simp
  show "\<exists>m. routeCache s1 (keys ! i @ ''|'' @ keys ! j) = Some m
           \<and> tbl1 = AList.update (keys ! j @ ''|'' @ keys ! i) (table_miles m)
                      (AList.update (keys ! i @ ''|'' @ keys ! j) (table_miles m) tbl)"
    using getMeters_Inr(1) [OF gm] t by blast
  show "\<And>k. k \<noteq> keys ! i @ ''|'' @ keys ! j \<Longrightarrow> routeCache s1 k = routeCache s k"
    using getMeters_Inr(2) [OF gm] by simp
  show "geoCache s1 = geoCache s"
    using getMeters_Inr(3) [OF gm] by simp
qed

lemma run_pairs_routeCache_other:
  "run_pairs net keys coords ps tbl s = (Inr tbl', s') \<Longrightarrow>
   k \<notin> set (map (\<lambda>p. keys ! fst p @ ''|'' @ keys ! snd p) ps) \<Longrightarrow>
   routeCache s' k = routeCache s k"
proof (induction ps arbitrary: tbl s)
  case Nil
  then show ?case by simp
next
  case (Cons p ps)
  obtain i j where p: "p = (i, j)" by (cases p)
  obtain r s1 where pb: "pair_body net keys coords i j tbl s = (r, s1)"
    by (cases "pair_body net keys coords i j tbl s")
  from Cons.prems(1) p pb obtain t1 where r: "r = Inr t1"
    and rest: "run_pairs net keys coords ps t1 s1 = (Inr tbl', s')"
    by (cases r) auto
  have "routeCache s1 k = routeCache s k"
    using pair_body_Inr(2) [of net keys coords i j tbl s t1 s1 k] pb r Cons.prems(2) p by simp
  moreover have "routeCache s' k = routeCache s1 k"
    using Cons.IH [OF rest] Cons.prems(2) by simp
  ultimately show ?case by simp
qed

lemma run_pairs_table:
  "run_pairs net keys coords ps tbl s = (Inr tbl', s') \<Longrightarrow>
   distinct (concat (map (pair_keys keys) ps)) \<Longrightarrow>
   set (concat (map (pair_keys keys) ps)) \<inter> fst ` set tbl = {} \<Longrightarrow>
   tbl' = tbl @ concat (map (pair_entries keys (routeCache s')) ps)"
proof (induction ps arbitrary: tbl s)
  case Nil
  then show ?case by simp
next
  case (Cons p ps)
  obtain i j where p: "p = (i, j)" by (cases p)
  let ?k1 = "keys ! i @ ''|'' @ keys ! j"
  let ?k2 = "keys ! j @ ''|'' @ keys ! i"
  obtain r s1 where pb: "pair_body net keys coords i j tbl s = (r, s1)"
    by (cases "pair_body net keys coords i j tbl s")
  from Cons.prems(1) p pb obtain t1 where r: "r = Inr t1"
    and rest: "run_pairs net keys coords ps t1 s1 = (Inr tbl', s')"
    by (cases r) auto
  from pair_body_Inr(1) [of net keys coords i j tbl s t1 s1] pb r
  obtain m where m: "routeCache s1 ?k1 = Some m"
    and t1: "t1 = AList.update ?k2 (table_miles m) (AList.update ?k1 (table_miles m) tbl)"
    by auto
  have e: "pair_keys keys p = [?k1, ?k2]" by (simp add: pair_keys_def p)
  have d: "?k1 \<noteq> ?k2" "?k1 \<notin> set (concat (map (pair_keys keys) ps))"
      "?k2 \<notin> set (concat (map (pair_keys keys) ps))" "distinct (concat (map (pair_keys keys) ps))"
    using Cons.prems(2) by (auto simp: e)
  have fresh: "?k1 \<notin> fst ` set tbl" "?k2 \<notin> fst ` set tbl"
      "set (concat (map (pair_keys keys) ps)) \<inter> fst ` set tbl = {}"
    using Cons.prems(3) by (auto simp: e)
  have t1': "t1 = tbl @ [(?k1, table_miles m), (?k2, table_miles m)]"
    unfolding t1 using fresh(1,2) d(1) by (simp add: update_fresh)
  have disj: "set (concat (map (pair_keys keys) ps)) \<inter> fst ` set t1 = {}"
    unfolding t1' using fresh(3) d(2,3) by auto
  have keep: "routeCache s' ?k1 = Some m"
  proof -
    have "?k1 \<notin> set (map (\<lambda>p. keys ! fst p @ ''|'' @ keys ! snd p) ps)"
      using d(2) by (auto simp: pair_keys_def)
    then show ?thesis using run_pairs_routeCache_other [OF rest] m by simp
  qed
  have "tbl' = t1 @ concat (map (pair_entries keys (routeCache s')) ps)"
    by (rule Cons.IH [OF rest d(4) disj])
  moreover have "pair_entries keys (routeCache s') p = [(?k1, table_miles m), (?k2, table_miles m)]"
    using keep by (simp add: pair_entries_def p Let_def)
  ultimately show ?case
    unfolding t1' by simp
qed


lemma getMeters_keeps:
  "getMeters net a b k s = (r, s1) \<Longrightarrow> routeCache s k' \<noteq> None \<Longrightarrow> routeCache s1 k' \<noteq> None"
  by (auto simp: getMeters_def Let_def split: if_splits option.splits route_response.splits list.splits)

lemma pair_body_keeps:
  assumes "pair_body net keys coords i j tbl s = (r, s1)" and "routeCache s k' \<noteq> None"
  shows "routeCache s1 k' \<noteq> None"
proof -
  let ?s0 = "s\<lparr>console := console s @ [RouteLine (keys ! i) (keys ! j)]\<rparr>"
  let ?g = "getMeters net (coords (keys ! i)) (coords (keys ! j)) (keys ! i @ ''|'' @ keys ! j) ?s0"
  obtain r' s' where g: "?g = (r', s')" by (cases ?g)
  have "s1 = s'" using assms(1) g by (cases r') (auto simp: pair_body_def Let_def)
  moreover have "routeCache s' k' \<noteq> None"
    using getMeters_keeps [OF g] assms(2) by simp
  ultimately show ?thesis by simp
qed

lemma run_pairs_keeps:
  "run_pairs net keys coords ps tbl s = (r, s') \<Longrightarrow> routeCache s k' \<noteq> None \<Longrightarrow>
   routeCache s' k' \<noteq> None"
proof (induction ps arbitrary: tbl s)
  case Nil
  then show ?case by simp
next
  case (Cons p ps)
  obtain i j where p: "p = (i, j)" by (cases p)
  obtain r1 s1 where pb: "pair_body net keys coords i j tbl s = (r1, s1)"
    by (cases "pair_body net keys coords i j tbl s")
  have k1: "routeCache s1 k' \<noteq> None" by (rule pair_body_keeps [OF pb Cons.prems(2)])
  show ?case
  proof (cases r1)
    case (Inl e)
    then show ?thesis using Cons.prems(1) p pb k1 by auto
  next
    case (Inr t1)
    then have "run_pairs net keys coords ps t1 s1 = (r, s')" using Cons.prems(1) p pb by simp
    then show ?thesis using Cons.IH k1 by blast
  qed
qed

lemma run_pairs_cache_defined:
  "run_pairs net keys coords ps tbl s = (Inr tbl', s') \<Longrightarrow> (i, j) \<in> set ps \<Longrightarrow>
   routeCache s' (keys ! i @ ''|'' @ keys ! j) \<noteq> None"
proof (induction ps arbitrary: tbl s)
  case Nil
  then show ?case by simp
next
  case (Cons p ps)
  obtain a b where p: "p = (a, b)" by (cases p)
  obtain r s1 where pb: "pair_body net keys coords a b tbl s = (r, s1)"
    by (cases "pair_body net keys coords a b tbl s")
  from Cons.prems(1) p pb obtain t1 where r: "r = Inr t1"
    and rest: "run_pairs net keys coords ps t1 s1 = (Inr tbl', s')"
    by (cases r) auto
  show ?case
  proof (cases "(i, j) = p")
    case True
    then have "routeCache s1 (keys ! i @ ''|'' @ keys ! j) \<noteq> None"
      using pair_body_Inr(1) [of net keys coords a b tbl s t1 s1] pb r p by auto
    then show ?thesis by (rule run_pairs_keeps [OF rest])
  next
    case False
    then have "(i, j) \<in> set ps" using Cons.prems(2) by simp
    then show ?thesis by (rule Cons.IH [OF rest])
  qed
qed

lemma pair_body_keys:
  assumes "pair_body net keys coords i j tbl s = (Inr tbl1, s1)"
  shows "fst ` set tbl1 = fst ` set tbl \<union> set (pair_keys keys (i, j))"
proof -
  from pair_body_Inr(1) [OF assms] obtain m where
    "tbl1 = AList.update (keys ! j @ ''|'' @ keys ! i) (table_miles m)
              (AList.update (keys ! i @ ''|'' @ keys ! j) (table_miles m) tbl)"
    by blast
  then show ?thesis by (auto simp: dom_update pair_keys_def)
qed

lemma run_pairs_keys:
  "run_pairs net keys coords ps tbl s = (Inr tbl', s') \<Longrightarrow>
   fst ` set tbl' = fst ` set tbl \<union> set (concat (map (pair_keys keys) ps))"
proof (induction ps arbitrary: tbl s)
  case Nil
  then show ?case by simp
next
  case (Cons p ps)
  obtain i j where p: "p = (i, j)" by (cases p)
  obtain r s1 where pb: "pair_body net keys coords i j tbl s = (r, s1)"
    by (cases "pair_body net keys coords i j tbl s")
  from Cons.prems(1) p pb obtain t1 where r: "r = Inr t1"
    and rest: "run_pairs net keys coords ps t1 s1 = (Inr tbl', s')"
    by (cases r) auto
  have "fst ` set t1 = fst ` set tbl \<union> set (pair_keys keys p)"
    using pair_body_keys [of net keys coords i j tbl s t1 s1] pb r p by simp
  then show ?case using Cons.IH [OF rest] by auto
qed

lemma pair_body_symmetric:
  assumes nobar: "\<forall>k \<in> set keys. CHR ''|'' \<notin> set k"
    and ij: "i < length keys" "j < length keys"
    and sym: "table_symmetric keys tbl"
    and pb: "pair_body net keys coords i j tbl s = (Inr tbl1, s1)"
  shows "table_symmetric keys tbl1"
proof -
  let ?k1 = "keys ! i @ ''|'' @ keys ! j"
  let ?k2 = "keys ! j @ ''|'' @ keys ! i"
  from pair_body_Inr(1) [OF pb] obtain m where
    t1: "tbl1 = AList.update ?k2 (table_miles m) (AList.update ?k1 (table_miles m) tbl)"
    by blast
  have mo: "map_of tbl1 = (map_of tbl)(?k1 \<mapsto> table_miles m, ?k2 \<mapsto> table_miles m)"
    unfolding t1 by (simp add: update_conv')
  have ki: "CHR ''|'' \<notin> set (keys ! i)" "CHR ''|'' \<notin> set (keys ! j)"
    using nobar ij by auto
  show ?thesis
    unfolding table_symmetric_def
  proof (intro ballI)
    fix A B
    assume A: "A \<in> set keys" and B: "B \<in> set keys"
    have nA: "CHR ''|'' \<notin> set A" and nB: "CHR ''|'' \<notin> set B" using nobar A B by auto
    have e1: "(A @ ''|'' @ B = ?k1) = (B @ ''|'' @ A = ?k2)"
      using join_inj [OF nA ki(1)] join_inj [OF nB ki(2)] by blast
    have e2: "(A @ ''|'' @ B = ?k2) = (B @ ''|'' @ A = ?k1)"
      using join_inj [OF nA ki(2)] join_inj [OF nB ki(1)] by blast
    have old: "map_of tbl (A @ ''|'' @ B) = map_of tbl (B @ ''|'' @ A)"
      using sym A B by (simp add: table_symmetric_def)
    show "map_of tbl1 (A @ ''|'' @ B) = map_of tbl1 (B @ ''|'' @ A)"
      unfolding mo using e1 e2 old by (auto simp: fun_upd_def)
  qed
qed

lemma run_pairs_symmetric:
  assumes nobar: "\<forall>k \<in> set keys. CHR ''|'' \<notin> set k"
  shows "run_pairs net keys coords ps tbl s = (Inr tbl', s') \<Longrightarrow>
     \<forall>(i, j) \<in> set ps. i < length keys \<and> j < length keys \<Longrightarrow>
     table_symmetric keys tbl \<Longrightarrow> table_symmetric keys tbl'"
proof (induction ps arbitrary: tbl s)
  case Nil
  then show ?case by simp
next
  case (Cons p ps)
  obtain i j where p: "p = (i, j)" by (cases p)
  obtain r s1 where pb: "pair_body net keys coords i j tbl s = (r, s1)"
    by (cases "pair_body net keys coords i j tbl s")
  from Cons.prems(1) p pb obtain t1 where r: "r = Inr t1"
    and rest: "run_pairs net keys coords ps t1 s1 = (Inr tbl', s')"
    by (cases r) auto
  have ij: "i < length keys" "j < length keys" using Cons.prems(2) p by auto
  have "table_symmetric keys t1"
    using pair_body_symmetric [OF nobar ij Cons.prems(3)] pb r by simp
  moreover have "\<forall>(i, j) \<in> set ps. i < length keys \<and> j < length keys"
    using Cons.prems(2) by simp
  ultimately show ?case using Cons.IH [OF rest] by blast
qed


lemma main_script_ok:
  assumes "thrown (main_script net locs fs) = None"
  shows "\<exists>coords s1 tbl s2.
           geocode_all net locs Map.empty (initial_state fs) = (Inr coords, s1)
         \<and> run_pairs net (map fst locs) coords (pair_indices (length locs)) [] s1 = (Inr tbl, s2)
         \<and> files_after (main_script net locs fs)
               = \<lparr>geoCacheFile = Some (geoCache s2), routeCacheFile = Some (routeCache s2),
                  outputFile = Some tbl\<rparr>
         \<and> issued (main_script net locs fs) = requests s2"
proof -
  obtain r s1 where g: "geocode_all net locs Map.empty (initial_state fs) = (r, s1)"
    by (cases "geocode_all net locs Map.empty (initial_state fs)")
  show ?thesis
  proof (cases r)
    case (Inl e)
    then show ?thesis using assms g by (simp add: main_script_geocode_fails)
  next
    case (Inr coords)
    obtain r2 s2 where ol: "outer_loop net (map fst locs) coords 0 [] s1 = (r2, s2)"
      by (cases "outer_loop net (map fst locs) coords 0 [] s1")
    show ?thesis
    proof (cases r2)
      case (Inl e)
      then show ?thesis using assms g \<open>r = Inr coords\<close> ol by (simp add: main_script_route_fails)
    next
      case (Inr tbl)
      have run: "run_pairs net (map fst locs) coords (pair_indices (length locs)) [] s1 = (Inr tbl, s2)"
        using ol Inr outer_loop_pair_indices [of net "map fst locs" coords "[]" s1] by simp
      have g': "geocode_all net locs Map.empty (initial_state fs) = (Inr coords, s1)"
        using g \<open>r = Inr coords\<close> by simp
      have ol': "outer_loop net (map fst locs) coords 0 [] s1 = (Inr tbl, s2)"
        using ol Inr by simp
      show ?thesis
        using g' run main_script_succeeds [OF g' ol'] by simp
    qed
  qed
qed

lemma set_both_orders: "set (both_orders ps) = set ps \<union> (\<lambda>p. (snd p, fst p)) ` set ps"
  by (auto simp: both_orders_def)

lemma distinct_both_orders:
  "distinct ps \<Longrightarrow> \<forall>p \<in> set ps. fst p < snd p \<Longrightarrow> distinct (both_orders ps)"
proof (induction ps)
  case Nil
  then show ?case by (simp add: both_orders_def)
next
  case (Cons p ps)
  have step: "both_orders (p # ps) = p # (snd p, fst p) # both_orders ps"
    by (simp add: both_orders_def)
  have "p \<noteq> (snd p, fst p)" using Cons.prems(2) by (cases p) auto
  moreover have "p \<notin> set (both_orders ps)"
    using Cons.prems unfolding set_both_orders by (cases p) force
  moreover have "(snd p, fst p) \<notin> set (both_orders ps)"
    using Cons.prems unfolding set_both_orders by (cases p) force
  moreover have "distinct (both_orders ps)" using Cons by simp
  ultimately show ?case unfolding step by simp
qed

lemma pair_keys_both_orders:
  "concat (map (pair_keys keys) ps) = map (\<lambda>p. keys ! fst p @ ''|'' @ keys ! snd p) (both_orders ps)"
  by (induction ps) (simp_all add: both_orders_def pair_keys_def)

lemma distinct_table_keys:
  assumes d: "distinct keys" and nobar: "\<forall>k \<in> set keys. CHR ''|'' \<notin> set k"
  shows "distinct (concat (map (pair_keys keys) (pair_indices (length keys))))"
proof -
  let ?ps = "pair_indices (length keys)"
  have lt: "\<forall>p \<in> set ?ps. fst p < snd p" by (auto simp: set_pair_indices)
  have d1: "distinct (both_orders ?ps)"
    by (rule distinct_both_orders [OF distinct_pair_indices lt])
  have bound: "\<forall>p \<in> set (both_orders ?ps). fst p < length keys \<and> snd p < length keys"
    unfolding set_both_orders by (auto simp: set_pair_indices)
  have "inj_on (\<lambda>p. keys ! fst p @ ''|'' @ keys ! snd p) (set (both_orders ?ps))"
  proof (rule inj_onI)
    fix p q
    assume p: "p \<in> set (both_orders ?ps)" and q: "q \<in> set (both_orders ?ps)"
      and e: "keys ! fst p @ ''|'' @ keys ! snd p = keys ! fst q @ ''|'' @ keys ! snd q"
    have bp: "fst p < length keys" "snd p < length keys" "fst q < length keys" "snd q < length keys"
      using bound p q by auto
    have "CHR ''|'' \<notin> set (keys ! fst p)" "CHR ''|'' \<notin> set (keys ! fst q)"
      using nobar bp by auto
    from join_inj [OF this e] have "keys ! fst p = keys ! fst q" "keys ! snd p = keys ! snd q"
      by auto
    then have "fst p = fst q" "snd p = snd q"
      using d bp by (auto simp: nth_eq_iff_index_eq)
    then show "p = q" by (simp add: prod_eq_iff)
  qed
  then show ?thesis
    unfolding pair_keys_both_orders using d1 by (simp add: distinct_map)
qed

lemma main_script_table:
  assumes ok: "thrown (main_script net locs fs) = None"
    and d: "distinct (map fst locs)" and nobar: "\<forall>k \<in> set (map fst locs). CHR ''|'' \<notin> set k"
  shows "\<exists>cache. routeCacheFile (files_after (main_script net locs fs)) = Some cache
           \<and> outputFile (files_after (main_script net locs fs))
                 = Some (concat (map (pair_entries (map fst locs) cache) (pair_indices (length locs))))
           \<and> (\<forall>(i, j) \<in> set (pair_indices (length locs)).
                  cache (map fst locs ! i @ ''|'' @ map fst locs ! j) \<noteq> None)"
proof -
  let ?keys = "map fst locs"
  from main_script_ok [OF ok] obtain coords s1 tbl s2 where
    run: "run_pairs net ?keys coords (pair_indices (length locs)) [] s1 = (Inr tbl, s2)"
    and fa: "files_after (main_script net locs fs)
               = \<lparr>geoCacheFile = Some (geoCache s2), routeCacheFile = Some (routeCache s2),
                  outputFile = Some tbl\<rparr>"
    by blast
  have dk: "distinct (concat (map (pair_keys ?keys) (pair_indices (length locs))))"
    using distinct_table_keys [OF d nobar] by simp
  have "tbl = [] @ concat (map (pair_entries ?keys (routeCache s2)) (pair_indices (length locs)))"
    by (rule run_pairs_table [OF run dk]) simp
  moreover have "\<forall>(i, j) \<in> set (pair_indices (length locs)).
                   routeCache s2 (?keys ! i @ ''|'' @ ?keys ! j) \<noteq> None"
    using run_pairs_cache_defined [OF run] by blast
  ultimately show ?thesis unfolding fa by simp
qed


lemma map_fst_pair_entries: "map fst (pair_entries keys cache p) = pair_keys keys p"
  by (simp add: pair_entries_def pair_keys_def Let_def)

lemma map_fst_table:
  "map fst (concat (map (pair_entries keys cache) ps)) = concat (map (pair_keys keys) ps)"
  by (induction ps) (simp_all add: map_fst_pair_entries)

lemma length_table: "length (concat (map (pair_entries keys cache) ps)) = 2 * length ps"
  by (induction ps) (simp_all add: pair_entries_def Let_def)

lemma no_self_pair:
  assumes d: "distinct keys" and nobar: "\<forall>k \<in> set keys. CHR ''|'' \<notin> set k"
    and A: "A \<in> set keys"
  shows "A @ ''|'' @ A \<notin> set (concat (map (pair_keys keys) (pair_indices (length keys))))"
proof
  assume "A @ ''|'' @ A \<in> set (concat (map (pair_keys keys) (pair_indices (length keys))))"
  then obtain p where p: "p \<in> set (both_orders (pair_indices (length keys)))"
    and e: "A @ ''|'' @ A = keys ! fst p @ ''|'' @ keys ! snd p"
    unfolding pair_keys_both_orders by auto
  have b: "fst p < length keys" "snd p < length keys" "fst p \<noteq> snd p"
    using p unfolding set_both_orders by (auto simp: set_pair_indices)
  have "CHR ''|'' \<notin> set A" "CHR ''|'' \<notin> set (keys ! fst p)" using nobar A b by auto
  from join_inj [OF this e] have "keys ! fst p = keys ! snd p" by auto
  then show False using d b by (simp add: nth_eq_iff_index_eq)
qed

text \<open>
  C3, amended. When the identifiers are distinct and none contains the separator \<open>|\<close>, a
  run that throws nothing writes a table of exactly \<open>N * (N - 1)\<close> entries with pairwise
  different keys, none of the form \<open>A|A\<close> for an identifier \<open>A\<close>.
\<close>

theorem table_entry_count:
  assumes ok: "thrown (main_script net locs fs) = None"
    and d: "distinct (map fst locs)"
    and nobar: "\<forall>k \<in> set (map fst locs). CHR ''|'' \<notin> set k"
  shows "\<exists>tbl. outputFile (files_after (main_script net locs fs)) = Some tbl
           \<and> length tbl = length locs * (length locs - 1)
           \<and> distinct (map fst tbl)
           \<and> (\<forall>A \<in> set (map fst locs). A @ ''|'' @ A \<notin> set (map fst tbl))"
proof -
  let ?keys = "map fst locs"
  let ?ps = "pair_indices (length locs)"
  from main_script_table [OF ok d nobar] obtain cache where
    t: "outputFile (files_after (main_script net locs fs))
          = Some (concat (map (pair_entries ?keys cache) ?ps))"
    by blast
  let ?tbl = "concat (map (pair_entries ?keys cache) ?ps)"
  have l: "length ?tbl = length locs * (length locs - 1)"
    unfolding length_table by (rule length_pair_indices)
  have dk: "distinct (map fst ?tbl)"
    unfolding map_fst_table using distinct_table_keys [OF d nobar] by simp
  have ns: "\<forall>A \<in> set ?keys. A @ ''|'' @ A \<notin> set (map fst ?tbl)"
    unfolding map_fst_table using no_self_pair [OF d nobar] by simp
  show ?thesis
    by (rule exI [of _ ?tbl], intro conjI, rule t, rule l, rule dk, rule ns)
qed

lemma three_locations_keys:
  "distinct (map fst three_locations)" "\<forall>k \<in> set (map fst three_locations). CHR ''|'' \<notin> set k"
  by (simp_all add: three_locations_def)

lemma three_locations_no_bar: "CHR ''|'' \<notin> set (concat (map fst three_locations))"
  by (simp add: three_locations_def)

text \<open>
  The hypotheses hold for three locations and a service that answers every request.
\<close>

theorem table_entry_count_witness:
  "thrown (main_script fixed_network three_locations no_files) = None
   \<and> distinct (map fst three_locations)
   \<and> CHR ''|'' \<notin> set (concat (map fst three_locations))
   \<and> (\<exists>tbl. outputFile (files_after (main_script fixed_network three_locations no_files)) = Some tbl
           \<and> length tbl = length three_locations * (length three_locations - 1)
           \<and> distinct (map fst tbl)
           \<and> (\<forall>A \<in> set (map fst three_locations). A @ ''|'' @ A \<notin> set (map fst tbl)))"
  by (intro conjI, rule fixed_run_ok, rule three_locations_keys(1), rule three_locations_no_bar,
      rule table_entry_count [OF fixed_run_ok three_locations_keys])

text \<open>
  C3 as stated fails for identifiers that contain the separator: \<open>A\<close> and \<open>A|A\<close> are
  distinct, both directions of their pair are the one key \<open>A|A|A\<close>, and the table has one
  entry where \<open>N * (N - 1)\<close> is two.
\<close>

theorem table_entry_count_counterexample:
  "distinct (map fst self_locations)
   \<and> thrown (main_script fixed_network self_locations no_files) = None
   \<and> length (the (outputFile (files_after (main_script fixed_network self_locations no_files)))) = 1
   \<and> length self_locations * (length self_locations - 1) = 2"
  by code_simp


text \<open>
  C2, amended. When no identifier contains the separator \<open>|\<close>: the empty table is symmetric,
  every execution of the loop body keeps the table symmetric (both directions are written
  in the same step, with the same value), and the table a run without error writes is
  symmetric and holds both directions of every pair.
\<close>

theorem both_directions_together:
  assumes nobar: "\<forall>k \<in> set (map fst locs). CHR ''|'' \<notin> set k"
  shows "table_symmetric (map fst locs) []
     \<and> (\<forall>coords i j tbl s tbl1 s1.
            i < length locs \<longrightarrow> j < length locs \<longrightarrow> table_symmetric (map fst locs) tbl \<longrightarrow>
            pair_body net (map fst locs) coords i j tbl s = (Inr tbl1, s1) \<longrightarrow>
            table_symmetric (map fst locs) tbl1)
     \<and> (thrown (main_script net locs fs) = None \<longrightarrow>
          (\<exists>tbl. outputFile (files_after (main_script net locs fs)) = Some tbl
             \<and> table_symmetric (map fst locs) tbl
             \<and> (\<forall>i j. i < j \<and> j < length locs \<longrightarrow>
                    map_of tbl (map fst locs ! i @ ''|'' @ map fst locs ! j) \<noteq> None
                  \<and> map_of tbl (map fst locs ! i @ ''|'' @ map fst locs ! j)
                      = map_of tbl (map fst locs ! j @ ''|'' @ map fst locs ! i))))"
proof (intro conjI allI impI)
  show "table_symmetric (map fst locs) []" by (simp add: table_symmetric_def)
next
  fix coords i j tbl s tbl1 s1
  assume "i < length locs" "j < length locs" "table_symmetric (map fst locs) tbl"
    "pair_body net (map fst locs) coords i j tbl s = (Inr tbl1, s1)"
  then show "table_symmetric (map fst locs) tbl1"
    using pair_body_symmetric [OF nobar, of i j tbl net coords s tbl1 s1] by simp
next
  let ?keys = "map fst locs"
  let ?ps = "pair_indices (length locs)"
  assume ok: "thrown (main_script net locs fs) = None"
  from main_script_ok [OF ok] obtain coords s1 tbl s2 where
    run: "run_pairs net ?keys coords ?ps [] s1 = (Inr tbl, s2)"
    and fa: "files_after (main_script net locs fs)
               = \<lparr>geoCacheFile = Some (geoCache s2), routeCacheFile = Some (routeCache s2),
                  outputFile = Some tbl\<rparr>"
    by blast
  have bound: "\<forall>(i, j) \<in> set ?ps. i < length ?keys \<and> j < length ?keys"
    by (auto simp: set_pair_indices)
  have sym: "table_symmetric ?keys tbl"
    by (rule run_pairs_symmetric [OF nobar run bound]) (simp add: table_symmetric_def)
  have keys: "fst ` set tbl = set (concat (map (pair_keys ?keys) ?ps))"
    using run_pairs_keys [OF run] by simp
  have pres: "\<forall>i j. i < j \<and> j < length locs \<longrightarrow>
                map_of tbl (?keys ! i @ ''|'' @ ?keys ! j) \<noteq> None
              \<and> map_of tbl (?keys ! i @ ''|'' @ ?keys ! j) = map_of tbl (?keys ! j @ ''|'' @ ?keys ! i)"
  proof (intro allI impI)
    fix i j
    assume ij: "i < j \<and> j < length locs"
    then have mem: "(i, j) \<in> set ?ps" by (simp add: set_pair_indices)
    have "?keys ! i @ ''|'' @ ?keys ! j \<in> set (pair_keys ?keys (i, j))" by (simp add: pair_keys_def)
    then have "?keys ! i @ ''|'' @ ?keys ! j \<in> fst ` set tbl"
      unfolding keys using mem by auto
    then have p: "map_of tbl (?keys ! i @ ''|'' @ ?keys ! j) \<noteq> None"
      by (simp add: map_of_eq_None_iff)
    have "?keys ! i \<in> set ?keys" "?keys ! j \<in> set ?keys" using ij by auto
    then have "map_of tbl (?keys ! i @ ''|'' @ ?keys ! j) = map_of tbl (?keys ! j @ ''|'' @ ?keys ! i)"
      using sym unfolding table_symmetric_def by blast
    then show "map_of tbl (?keys ! i @ ''|'' @ ?keys ! j) \<noteq> None
              \<and> map_of tbl (?keys ! i @ ''|'' @ ?keys ! j) = map_of tbl (?keys ! j @ ''|'' @ ?keys ! i)"
      using p by simp
  qed
  show "\<exists>tbl. outputFile (files_after (main_script net locs fs)) = Some tbl
             \<and> table_symmetric ?keys tbl
             \<and> (\<forall>i j. i < j \<and> j < length locs \<longrightarrow>
                    map_of tbl (?keys ! i @ ''|'' @ ?keys ! j) \<noteq> None
                  \<and> map_of tbl (?keys ! i @ ''|'' @ ?keys ! j)
                      = map_of tbl (?keys ! j @ ''|'' @ ?keys ! i))"
    by (rule exI [of _ tbl], intro conjI, simp add: fa, rule sym, rule pres)
qed


theorem both_directions_together_witness:
  "CHR ''|'' \<notin> set (concat (map fst three_locations))
   \<and> thrown (main_script fixed_network three_locations no_files) = None
   \<and> (\<exists>tbl. outputFile (files_after (main_script fixed_network three_locations no_files)) = Some tbl
          \<and> table_symmetric (map fst three_locations) tbl
          \<and> map_of tbl ''HOME|LS'' \<noteq> None
          \<and> map_of tbl ''HOME|LS'' = map_of tbl ''LS|HOME'')"
proof -
  let ?R = "main_script fixed_network three_locations no_files"
  let ?keys = "map fst three_locations"
  from both_directions_together [OF three_locations_keys(2), of fixed_network no_files]
  have "thrown ?R = None \<longrightarrow>
          (\<exists>tbl. outputFile (files_after ?R) = Some tbl
             \<and> table_symmetric ?keys tbl
             \<and> (\<forall>i j. i < j \<and> j < length three_locations \<longrightarrow>
                    map_of tbl (?keys ! i @ ''|'' @ ?keys ! j) \<noteq> None
                  \<and> map_of tbl (?keys ! i @ ''|'' @ ?keys ! j)
                      = map_of tbl (?keys ! j @ ''|'' @ ?keys ! i)))"
    by (elim conjE)
  then obtain tbl where o: "outputFile (files_after ?R) = Some tbl"
    and sym: "table_symmetric ?keys tbl"
    and all: "\<forall>i j. i < j \<and> j < length three_locations \<longrightarrow>
                    map_of tbl (?keys ! i @ ''|'' @ ?keys ! j) \<noteq> None
                  \<and> map_of tbl (?keys ! i @ ''|'' @ ?keys ! j)
                      = map_of tbl (?keys ! j @ ''|'' @ ?keys ! i)"
    using fixed_run_ok by blast
  have "(0::nat) < 1 \<and> 1 < length three_locations" by (simp add: three_locations_def)
  with all have raw: "map_of tbl (?keys ! 0 @ ''|'' @ ?keys ! 1) \<noteq> None
                  \<and> map_of tbl (?keys ! 0 @ ''|'' @ ?keys ! 1)
                      = map_of tbl (?keys ! 1 @ ''|'' @ ?keys ! 0)" by blast
  have k: "?keys ! 0 @ ''|'' @ ?keys ! 1 = ''HOME|LS''" "?keys ! 1 @ ''|'' @ ?keys ! 0 = ''LS|HOME''"
    by (simp_all add: three_locations_def)
  have e: "map_of tbl ''HOME|LS'' \<noteq> None" "map_of tbl ''HOME|LS'' = map_of tbl ''LS|HOME''"
    using raw unfolding k by (rule conjunct1, rule conjunct2)
  show ?thesis
    by (intro conjI, rule three_locations_no_bar, rule fixed_run_ok, rule exI [of _ tbl],
        intro conjI, rule o, rule sym, rule e(1), rule e(2))
qed

text \<open>
  C2 as stated fails for identifiers that contain the separator: with \<open>a|b\<close>, \<open>b|a\<close> and \<open>a\<close>,
  the key \<open>a|b|a\<close> is one direction of the pair \<open>(a|b, a)\<close> and the other direction of
  \<open>(b|a, a)\<close>; the later pair overwrites it, and the two directions of \<open>(a|b, a)\<close> end
  with different values.
\<close>

theorem both_directions_together_counterexample:
  "distinct (map fst bar_locations)
   \<and> thrown (main_script fixed_network bar_locations no_files) = None
   \<and> map_of (the (outputFile (files_after (main_script fixed_network bar_locations no_files))))
         (fst (bar_locations ! 0) @ ''|'' @ fst (bar_locations ! 2))
       = Some (7003097420561121 / 2251799813685248)
   \<and> map_of (the (outputFile (files_after (main_script fixed_network bar_locations no_files))))
         (fst (bar_locations ! 2) @ ''|'' @ fst (bar_locations ! 0))
       = Some (1401745384019067 / 562949953421312)"
  by code_simp

subsection \<open>Cache hits\<close>

text \<open>
  What \<^verbatim>\<open>geocode\<close> returns is truthy, so the coordinates the pair loop passes to
  \<^verbatim>\<open>getMeters\<close> are never \<^verbatim>\<open>undefined\<close> or \<^verbatim>\<open>null\<close>; and a run whose lookups all hit
  the caches changes nothing but the console.
\<close>

lemma geocode_result_truthy:
  "geocode net a s = (Inr v, s1) \<Longrightarrow> truthy v \<and> js_get (geoCache s1) a = Some v"
  by (auto simp: geocode_def Let_def js_truthy_def js_get_def
           split: if_splits option.splits geo_response.splits list.splits)

lemma geocode_keeps_truthy:
  "geocode net a s = (r, s1) \<Longrightarrow> js_truthy (js_get (geoCache s) a') \<Longrightarrow>
   js_truthy (js_get (geoCache s1) a')"
  by (auto simp: geocode_def Let_def js_truthy_def js_get_def
           split: if_splits option.splits geo_response.splits list.splits)

lemma geocode_routeCache: "routeCache (snd (geocode net a s)) = routeCache s"
  by (auto simp: geocode_def Let_def split: geo_response.splits list.splits)

lemma geocode_all_routeCache: "routeCache (snd (geocode_all net locs coords s)) = routeCache s"
proof (induction locs arbitrary: coords s)
  case Nil
  then show ?case by simp
next
  case (Cons p locs)
  obtain key addr where p: "p = (key, addr)" by (cases p)
  let ?s0 = "s\<lparr>console := console s @ [GeocodingLine key addr]\<rparr>"
  obtain r s1 where g: "geocode net addr ?s0 = (r, s1)" by (cases "geocode net addr ?s0")
  have c1: "routeCache s1 = routeCache s"
    using geocode_routeCache [of net addr ?s0] g by simp
  show ?case
  proof (cases r)
    case (Inl e)
    then show ?thesis using p g c1 by simp
  next
    case (Inr c)
    then have step: "geocode_all net (p # locs) coords s = geocode_all net locs (coords(key \<mapsto> c)) s1"
      using p g by simp
    show ?thesis unfolding step Cons.IH c1 by simp
  qed
qed

lemma geocode_all_truthy:
  "geocode_all net locs coords s = (Inr coords', s') \<Longrightarrow>
   (\<forall>a \<in> snd ` set locs. js_truthy (js_get (geoCache s') a))
   \<and> (\<forall>a. js_truthy (js_get (geoCache s) a) \<longrightarrow> js_truthy (js_get (geoCache s') a))
   \<and> (\<forall>k \<in> fst ` set locs. \<exists>v. coords' k = Some v \<and> truthy v)
   \<and> (\<forall>k v. coords k = Some v \<and> truthy v \<longrightarrow> (\<exists>v'. coords' k = Some v' \<and> truthy v'))"
proof (induction locs arbitrary: coords s)
  case Nil
  then show ?case by simp
next
  case (Cons p locs)
  obtain key addr where p: "p = (key, addr)" by (cases p)
  let ?s0 = "s\<lparr>console := console s @ [GeocodingLine key addr]\<rparr>"
  obtain r s1 where g: "geocode net addr ?s0 = (r, s1)" by (cases "geocode net addr ?s0")
  from Cons.prems p g obtain c where r: "r = Inr c"
    and rest: "geocode_all net locs (coords(key \<mapsto> c)) s1 = (Inr coords', s')"
    by (cases r) auto
  have g': "geocode net addr ?s0 = (Inr c, s1)" using g r by simp
  have tc: "truthy c" and hit: "js_truthy (js_get (geoCache s1) addr)"
    using geocode_result_truthy [OF g'] by (simp_all add: js_truthy_def)
  have keep1: "js_truthy (js_get (geoCache s) a) \<Longrightarrow> js_truthy (js_get (geoCache s1) a)" for a
    using geocode_keeps_truthy [OF g, of a] by simp
  note IH = Cons.IH [OF rest]
  have 1: "\<forall>a \<in> snd ` set (p # locs). js_truthy (js_get (geoCache s') a)"
    using IH hit p by auto
  have 2: "\<forall>a. js_truthy (js_get (geoCache s) a) \<longrightarrow> js_truthy (js_get (geoCache s') a)"
    using IH keep1 by blast
  have kc: "\<exists>v'. coords' key = Some v' \<and> truthy v'"
    using IH tc by (metis fun_upd_same)
  have 3: "\<forall>k \<in> fst ` set (p # locs). \<exists>v. coords' k = Some v \<and> truthy v"
    using IH kc p by auto
  have 4: "\<forall>k v. coords k = Some v \<and> truthy v \<longrightarrow> (\<exists>v'. coords' k = Some v' \<and> truthy v')"
  proof (intro allI impI)
    fix k v
    assume a: "coords k = Some v \<and> truthy v"
    show "\<exists>v'. coords' k = Some v' \<and> truthy v'"
    proof (cases "k = key")
      case True
      then show ?thesis using kc by simp
    next
      case False
      then have "(coords(key \<mapsto> c)) k = Some v \<and> truthy v" using a by simp
      then show ?thesis using IH by blast
    qed
  qed
  show ?case using 1 2 3 4 by blast
qed

lemma geocode_all_warm:
  "\<forall>a \<in> snd ` set locs. js_truthy (js_get (geoCache s) a) \<Longrightarrow>
   \<exists>coords'. geocode_all net locs coords s
      = (Inr coords', s\<lparr>console := console s @ map (\<lambda>(k, a). GeocodingLine k a) locs\<rparr>)"
proof (induction locs arbitrary: coords s)
  case Nil
  then show ?case by simp
next
  case (Cons p locs)
  obtain key addr where p: "p = (key, addr)" by (cases p)
  let ?s0 = "s\<lparr>console := console s @ [GeocodingLine key addr]\<rparr>"
  have hit: "js_truthy (js_get (geoCache ?s0) addr)" using Cons.prems p by simp
  then have g: "geocode net addr ?s0 = (Inr (the (js_get (geoCache ?s0) addr)), ?s0)"
    by (simp add: geocode_def)
  have "\<forall>a \<in> snd ` set locs. js_truthy (js_get (geoCache ?s0) a)" using Cons.prems by simp
  from Cons.IH [OF this, of "coords(key \<mapsto> the (js_get (geoCache ?s0) addr))"]
  obtain coords' where
    "geocode_all net locs (coords(key \<mapsto> the (js_get (geoCache ?s0) addr))) ?s0
       = (Inr coords', ?s0\<lparr>console := console ?s0 @ map (\<lambda>(k, a). GeocodingLine k a) locs\<rparr>)"
    by blast
  then have "geocode_all net (p # locs) coords s
       = (Inr coords', s\<lparr>console := console s @ map (\<lambda>(k, a). GeocodingLine k a) (p # locs)\<rparr>)"
    using g p by simp
  then show ?case by blast
qed

lemma run_pairs_warm:
  "\<forall>p \<in> set ps. \<exists>m. routeCache s (keys ! fst p @ ''|'' @ keys ! snd p) = Some m \<and> m \<noteq> 0 \<Longrightarrow>
   \<exists>tbl'. run_pairs net keys coords ps tbl s
      = (Inr tbl', s\<lparr>console := console s @ map (route_line keys) ps\<rparr>)"
proof (induction ps arbitrary: tbl s)
  case Nil
  then show ?case by simp
next
  case (Cons p ps)
  obtain i j where p: "p = (i, j)" by (cases p)
  let ?s0 = "s\<lparr>console := console s @ [RouteLine (keys ! i) (keys ! j)]\<rparr>"
  from Cons.prems p obtain m where m: "routeCache s (keys ! i @ ''|'' @ keys ! j) = Some m" "m \<noteq> 0"
    by auto
  then have g: "getMeters net (coords (keys ! i)) (coords (keys ! j)) (keys ! i @ ''|'' @ keys ! j) ?s0
                  = (Inr m, ?s0)"
    by (simp add: getMeters_def)
  then obtain t1 where pb: "pair_body net keys coords i j tbl s = (Inr t1, ?s0)"
    by (simp add: pair_body_def Let_def)
  have "\<forall>p \<in> set ps. \<exists>m. routeCache ?s0 (keys ! fst p @ ''|'' @ keys ! snd p) = Some m \<and> m \<noteq> 0"
    using Cons.prems by simp
  from Cons.IH [OF this, of t1] obtain tbl' where
    "run_pairs net keys coords ps t1 ?s0
       = (Inr tbl', ?s0\<lparr>console := console ?s0 @ map (route_line keys) ps\<rparr>)"
    by blast
  then have "run_pairs net keys coords (p # ps) tbl s
       = (Inr tbl', s\<lparr>console := console s @ map (route_line keys) (p # ps)\<rparr>)"
    using pb p by (simp add: route_line_def)
  then show ?case by blast
qed


lemma run_pairs_geoCache:
  "run_pairs net keys coords ps tbl s = (Inr tbl', s') \<Longrightarrow> geoCache s' = geoCache s"
proof (induction ps arbitrary: tbl s)
  case Nil
  then show ?case by simp
next
  case (Cons p ps)
  obtain i j where p: "p = (i, j)" by (cases p)
  obtain r s1 where pb: "pair_body net keys coords i j tbl s = (r, s1)"
    by (cases "pair_body net keys coords i j tbl s")
  from Cons.prems p pb obtain t1 where r: "r = Inr t1"
    and rest: "run_pairs net keys coords ps t1 s1 = (Inr tbl', s')"
    by (cases r) auto
  have "geoCache s1 = geoCache s"
    using pair_body_Inr(3) [of net keys coords i j tbl s t1 s1] pb r by simp
  then show ?case using Cons.IH [OF rest] by simp
qed

text \<open>
  Running the script again on the files a run has written: when the identifiers are
  distinct and free of \<open>|\<close> and no cached distance is 0, the second run makes no
  request and writes the same files, the table included, whatever the service would answer.
\<close>

lemma warm_cache_rerun:
  assumes ok: "thrown (main_script net locs fs) = None"
    and d: "distinct (map fst locs)"
    and nobar: "\<forall>k \<in> set (map fst locs). CHR ''|'' \<notin> set k"
    and nz: "\<forall>i j. i < j \<and> j < length locs \<longrightarrow>
               loadCache (routeCacheFile (files_after (main_script net locs fs)))
                 (map fst locs ! i @ ''|'' @ map fst locs ! j) \<noteq> Some 0"
  shows "thrown (main_script net' locs (files_after (main_script net locs fs))) = None
       \<and> issued (main_script net' locs (files_after (main_script net locs fs))) = []
       \<and> files_after (main_script net' locs (files_after (main_script net locs fs)))
           = files_after (main_script net locs fs)"
proof -
  let ?keys = "map fst locs"
  let ?ps = "pair_indices (length locs)"
  let ?R1 = "main_script net locs fs"
  from main_script_ok [OF ok] obtain coords s1 tbl s2 where
    g: "geocode_all net locs Map.empty (initial_state fs) = (Inr coords, s1)"
    and run: "run_pairs net ?keys coords ?ps [] s1 = (Inr tbl, s2)"
    and fa: "files_after ?R1
               = \<lparr>geoCacheFile = Some (geoCache s2), routeCacheFile = Some (routeCache s2),
                  outputFile = Some tbl\<rparr>"
    by blast
  define w where "w = initial_state (files_after ?R1)"
  have w: "geoCache w = geoCache s2" "routeCache w = routeCache s2" "requests w = []"
    unfolding w_def fa by (simp_all add: initial_state_def loadCache_def)
  have geo2: "geoCache s2 = geoCache s1" by (rule run_pairs_geoCache [OF run])
  have "\<forall>a \<in> snd ` set locs. js_truthy (js_get (geoCache s1) a)"
    using geocode_all_truthy [OF g] by blast
  then have warm: "\<forall>a \<in> snd ` set locs. js_truthy (js_get (geoCache w) a)"
    unfolding w(1) geo2 .
  define w1 where "w1 = w\<lparr>console := console w @ map (\<lambda>(k, a). GeocodingLine k a) locs\<rparr>"
  from geocode_all_warm [OF warm, of net' Map.empty] obtain coords2 where
    g2: "geocode_all net' locs Map.empty w = (Inr coords2, w1)"
    unfolding w1_def by blast
  have w1: "geoCache w1 = geoCache s2" "routeCache w1 = routeCache s2" "requests w1 = []"
    unfolding w1_def using w by simp_all
  have dk: "distinct (concat (map (pair_keys ?keys) ?ps))"
    using distinct_table_keys [OF d nobar] by simp
  have hits: "\<forall>p \<in> set ?ps. \<exists>m. routeCache w1 (?keys ! fst p @ ''|'' @ ?keys ! snd p) = Some m \<and> m \<noteq> 0"
  proof
    fix p
    assume p: "p \<in> set ?ps"
    obtain i j where ij: "p = (i, j)" by (cases p)
    have lt: "i < j \<and> j < length locs" using p ij by (simp add: set_pair_indices)
    have "routeCache s2 (?keys ! i @ ''|'' @ ?keys ! j) \<noteq> None"
      using run_pairs_cache_defined [OF run] p ij by simp
    moreover have "routeCache s2 (?keys ! i @ ''|'' @ ?keys ! j) \<noteq> Some 0"
      using nz lt unfolding fa by (simp add: loadCache_def)
    ultimately show "\<exists>m. routeCache w1 (?keys ! fst p @ ''|'' @ ?keys ! snd p) = Some m \<and> m \<noteq> 0"
      unfolding w1(2) ij by auto
  qed
  define w2 where "w2 = w1\<lparr>console := console w1 @ map (route_line ?keys) ?ps\<rparr>"
  from run_pairs_warm [OF hits, of net' coords2 "[]"] obtain tbl2 where
    run2: "run_pairs net' ?keys coords2 ?ps [] w1 = (Inr tbl2, w2)"
    unfolding w2_def by blast
  have w2: "geoCache w2 = geoCache s2" "routeCache w2 = routeCache s2" "requests w2 = []"
    unfolding w2_def using w1 by simp_all
  have t1: "tbl = [] @ concat (map (pair_entries ?keys (routeCache s2)) ?ps)"
    by (rule run_pairs_table [OF run dk]) simp
  have t2: "tbl2 = [] @ concat (map (pair_entries ?keys (routeCache w2)) ?ps)"
    by (rule run_pairs_table [OF run2 dk]) simp
  have same: "tbl2 = tbl" unfolding t1 t2 w2(2) ..
  have ol: "outer_loop net' ?keys coords2 0 [] w1 = (Inr tbl2, w2)"
    using run2 outer_loop_pair_indices [of net' ?keys coords2 "[]" w1] by simp
  have g2': "geocode_all net' locs Map.empty (initial_state (files_after ?R1)) = (Inr coords2, w1)"
    using g2 unfolding w_def .
  show ?thesis
    unfolding main_script_succeeds [OF g2' ol] using w2 same fa by simp
qed




text \<open>
  C1 at a warm cache with a zero distance. A first run, with no cache files, for two
  identifiers of one address: the service returns 0 meters, and the run writes both
  caches, covering the address and the pair key. The second run on these files makes a
  routing request all the same, and its table takes the new answer.
\<close>

theorem warm_cache_zero_distance_refetched:
  "thrown (main_script zero_network same_address_locations no_files) = None
   \<and> the (geoCacheFile (files_after (main_script zero_network same_address_locations no_files)))
         ''5 Corp Dr'' = Some corp_dr
   \<and> the (routeCacheFile (files_after (main_script zero_network same_address_locations no_files)))
         ''HOME|OFFICE'' = Some 0
   \<and> outputFile (files_after (main_script zero_network same_address_locations no_files))
       = Some [(''HOME|OFFICE'', 0), (''OFFICE|HOME'', 0)]
   \<and> issued (main_script steady_network same_address_locations
                (files_after (main_script zero_network same_address_locations no_files)))
       = [RouteRequest corp_dr corp_dr]
   \<and> outputFile (files_after (main_script steady_network same_address_locations
                (files_after (main_script zero_network same_address_locations no_files))))
       = Some [(''HOME|OFFICE'', 5584463537939415 / 9007199254740992),
               (''OFFICE|HOME'', 5584463537939415 / 9007199254740992)]"
  by code_simp

text \<open>
  Where a run takes its values from. A call of \<^verbatim>\<open>getMeters\<close> that returns either returns the
  cached entry and changes nothing, or makes one request for the two coordinates it was
  given and returns the distance of the first route of the answer; \<^verbatim>\<open>geocode\<close> likewise.
  Requests are only ever appended, so a request made stays where it was made.
\<close>

lemma getMeters_exact:
  assumes "getMeters net ca cb k s = (Inr m, s1)"
  shows "routeCache s1 k = Some m
     \<and> (case cached_meters (routeCache s) k of
          Some m0 \<Rightarrow> m = m0 \<and> s1 = s
        | None \<Rightarrow> \<exists>a b. ca = Some a \<and> cb = Some b
                     \<and> requests s1 = requests s @ [RouteRequest a b]
                     \<and> first_route (route_net net (length (requests s)) a b) = Some m)"
  using assms
  by (auto simp: getMeters_def cached_meters_def first_route_def nullish_def Let_def
           split: if_splits option.splits route_response.splits list.splits)

lemma getMeters_requests_grow: "\<exists>ext. requests (snd (getMeters net ca cb k s)) = requests s @ ext"
  by (auto simp: getMeters_def Let_def split: option.splits route_response.splits list.splits)

lemma pair_body_requests_grow:
  "\<exists>ext. requests (snd (pair_body net keys coords i j tbl s)) = requests s @ ext"
proof -
  let ?s0 = "s\<lparr>console := console s @ [RouteLine (keys ! i) (keys ! j)]\<rparr>"
  let ?g = "getMeters net (coords (keys ! i)) (coords (keys ! j)) (keys ! i @ ''|'' @ keys ! j) ?s0"
  have "requests (snd (pair_body net keys coords i j tbl s)) = requests (snd ?g)"
    by (cases ?g) (auto simp: pair_body_def Let_def split: sum.splits)
  then show ?thesis using getMeters_requests_grow [of net _ _ _ ?s0] by simp
qed

lemma run_pairs_requests_grow:
  "\<exists>ext. requests (snd (run_pairs net keys coords ps tbl s)) = requests s @ ext"
proof (induction ps arbitrary: tbl s)
  case Nil
  then show ?case by simp
next
  case (Cons p ps)
  obtain i j where p: "p = (i, j)" by (cases p)
  obtain r s1 where pb: "pair_body net keys coords i j tbl s = (r, s1)"
    by (cases "pair_body net keys coords i j tbl s")
  obtain e1 where e1: "requests s1 = requests s @ e1"
    using pair_body_requests_grow [of net keys coords i j tbl s] pb by auto
  show ?case
  proof (cases r)
    case (Inl e)
    then show ?thesis using p pb e1 by simp
  next
    case (Inr t1)
    obtain e2 where "requests (snd (run_pairs net keys coords ps t1 s1)) = requests s1 @ e2"
      using Cons.IH [of t1 s1] by blast
    then show ?thesis using p pb Inr e1 by simp
  qed
qed

lemma pair_body_exact:
  assumes "pair_body net keys coords i j tbl s = (Inr tbl1, s1)"
  shows "\<exists>m. routeCache s1 (keys ! i @ ''|'' @ keys ! j) = Some m
     \<and> (case cached_meters (routeCache s) (keys ! i @ ''|'' @ keys ! j) of
          Some m0 \<Rightarrow> m = m0
        | None \<Rightarrow> \<exists>a b. coords (keys ! i) = Some a \<and> coords (keys ! j) = Some b
                     \<and> requests s1 = requests s @ [RouteRequest a b]
                     \<and> first_route (route_net net (length (requests s)) a b) = Some m)"
proof -
  let ?k = "keys ! i @ ''|'' @ keys ! j"
  let ?s0 = "s\<lparr>console := console s @ [RouteLine (keys ! i) (keys ! j)]\<rparr>"
  let ?g = "getMeters net (coords (keys ! i)) (coords (keys ! j)) ?k ?s0"
  obtain r s' where g: "?g = (r, s')" by (cases ?g)
  from assms g obtain m where r: "r = Inr m" and s1: "s1 = s'"
    by (cases r) (auto simp: pair_body_def Let_def)
  have gm: "?g = (Inr m, s1)" using g r s1 by simp
  from getMeters_exact [OF gm] show ?thesis
    by (auto split: option.splits)
qed

lemma run_pairs_meters:
  "run_pairs net keys coords ps tbl s = (Inr tbl', s') \<Longrightarrow>
   distinct (map (\<lambda>p. keys ! fst p @ ''|'' @ keys ! snd p) ps) \<Longrightarrow>
   (i, j) \<in> set ps \<Longrightarrow>
   \<exists>m. routeCache s' (keys ! i @ ''|'' @ keys ! j) = Some m
     \<and> (case cached_meters (routeCache s) (keys ! i @ ''|'' @ keys ! j) of
          Some m0 \<Rightarrow> m = m0
        | None \<Rightarrow> \<exists>a b. coords (keys ! i) = Some a \<and> coords (keys ! j) = Some b
                     \<and> route_requested net (requests s') a b m)"
proof (induction ps arbitrary: tbl s)
  case Nil
  then show ?case by simp
next
  case (Cons p ps)
  obtain a0 b0 where p: "p = (a0, b0)" by (cases p)
  let ?k = "keys ! i @ ''|'' @ keys ! j"
  let ?kp = "keys ! a0 @ ''|'' @ keys ! b0"
  obtain r s1 where pb: "pair_body net keys coords a0 b0 tbl s = (r, s1)"
    by (cases "pair_body net keys coords a0 b0 tbl s")
  from Cons.prems(1) p pb obtain t1 where r: "r = Inr t1"
    and rest: "run_pairs net keys coords ps t1 s1 = (Inr tbl', s')"
    by (cases r) auto
  have pb': "pair_body net keys coords a0 b0 tbl s = (Inr t1, s1)" using pb r by simp
  have dist: "distinct (map (\<lambda>p. keys ! fst p @ ''|'' @ keys ! snd p) ps)"
    and fresh: "?kp \<notin> set (map (\<lambda>p. keys ! fst p @ ''|'' @ keys ! snd p) ps)"
    using Cons.prems(2) p by simp_all
  obtain ext where ext: "requests s' = requests s1 @ ext"
    using run_pairs_requests_grow [of net keys coords ps t1 s1] rest by auto
  show ?case
  proof (cases "(i, j) = p")
    case True
    then have ij: "i = a0" "j = b0" using p by simp_all
    from pair_body_exact [OF pb'] obtain m where
      m: "routeCache s1 ?kp = Some m"
      and src: "case cached_meters (routeCache s) ?kp of
                  Some m0 \<Rightarrow> m = m0
                | None \<Rightarrow> \<exists>a b. coords (keys ! a0) = Some a \<and> coords (keys ! b0) = Some b
                     \<and> requests s1 = requests s @ [RouteRequest a b]
                     \<and> first_route (route_net net (length (requests s)) a b) = Some m"
      by blast
    have keep: "routeCache s' ?kp = Some m"
      using run_pairs_routeCache_other [OF rest fresh] m by simp
    have "case cached_meters (routeCache s) ?kp of
            Some m0 \<Rightarrow> m = m0
          | None \<Rightarrow> \<exists>a b. coords (keys ! a0) = Some a \<and> coords (keys ! b0) = Some b
                     \<and> route_requested net (requests s') a b m"
    proof (cases "cached_meters (routeCache s) ?kp")
      case None
      with src obtain a b where ab: "coords (keys ! a0) = Some a" "coords (keys ! b0) = Some b"
        "requests s1 = requests s @ [RouteRequest a b]"
        "first_route (route_net net (length (requests s)) a b) = Some m"
        by auto
      have "requests s' ! length (requests s) = RouteRequest a b"
        unfolding ext ab(3) by (simp add: nth_append)
      moreover have "length (requests s) < length (requests s')"
        unfolding ext ab(3) by simp
      ultimately have "route_requested net (requests s') a b m"
        unfolding route_requested_def using ab(4) by blast
      then show ?thesis using None ab by auto
    next
      case (Some m0)
      then show ?thesis using src by simp
    qed
    then show ?thesis using keep ij by blast
  next
    case False
    then have mem: "(i, j) \<in> set ps" using Cons.prems(3) by simp
    then have inset: "?k \<in> set (map (\<lambda>p. keys ! fst p @ ''|'' @ keys ! snd p) ps)" by force
    have "?k \<noteq> ?kp"
    proof
      assume "?k = ?kp"
      then show False using fresh inset by simp
    qed
    then have same: "routeCache s1 ?k = routeCache s ?k"
      using pair_body_Inr(2) [OF pb'] by simp
    have c: "cached_meters (routeCache s1) ?k = cached_meters (routeCache s) ?k"
      unfolding cached_meters_def same ..
    from Cons.IH [OF rest dist mem] show ?thesis unfolding c .
  qed
qed

lemma geocode_exact:
  assumes "geocode net a s = (Inr v, s1)"
  shows "case cached_coordinate (geoCache s) a of
           Some v0 \<Rightarrow> v = v0 \<and> s1 = s
         | None \<Rightarrow> first_center (geo_net net (length (requests s)) a) = Some v
                   \<and> requests s1 = requests s @ [GeocodeRequest a]
                   \<and> geoCache s1 = (geoCache s)(a \<mapsto> v)"
  using assms
  by (auto simp: geocode_def cached_coordinate_def first_center_def Let_def js_truthy_def
           split: if_splits option.splits geo_response.splits list.splits)

lemma geocode_requests_grow: "\<exists>ext. requests (snd (geocode net a s)) = requests s @ ext"
  by (auto simp: geocode_def Let_def split: geo_response.splits list.splits)

lemma geocode_all_requests_grow:
  "\<exists>ext. requests (snd (geocode_all net locs coords s)) = requests s @ ext"
proof (induction locs arbitrary: coords s)
  case Nil
  then show ?case by simp
next
  case (Cons p locs)
  obtain key addr where p: "p = (key, addr)" by (cases p)
  let ?s0 = "s\<lparr>console := console s @ [GeocodingLine key addr]\<rparr>"
  obtain r s1 where g: "geocode net addr ?s0 = (r, s1)" by (cases "geocode net addr ?s0")
  obtain e1 where e1: "requests s1 = requests s @ e1"
    using geocode_requests_grow [of net addr ?s0] g by auto
  show ?case
  proof (cases r)
    case (Inl e)
    then show ?thesis using p g e1 by simp
  next
    case (Inr c)
    obtain e2 where "requests (snd (geocode_all net locs (coords(key \<mapsto> c)) s1)) = requests s1 @ e2"
      using Cons.IH [of "coords(key \<mapsto> c)" s1] by blast
    then show ?thesis using p g Inr e1 by simp
  qed
qed

lemma geocode_all_coords_other:
  "geocode_all net locs coords s = (Inr coords', s') \<Longrightarrow> k \<notin> fst ` set locs \<Longrightarrow>
   coords' k = coords k"
proof (induction locs arbitrary: coords s)
  case Nil
  then show ?case by simp
next
  case (Cons p locs)
  obtain key addr where p: "p = (key, addr)" by (cases p)
  let ?s0 = "s\<lparr>console := console s @ [GeocodingLine key addr]\<rparr>"
  obtain r s1 where g: "geocode net addr ?s0 = (r, s1)" by (cases "geocode net addr ?s0")
  from Cons.prems(1) p g obtain c where r: "r = Inr c"
    and rest: "geocode_all net locs (coords(key \<mapsto> c)) s1 = (Inr coords', s')"
    by (cases r) auto
  have "k \<notin> fst ` set locs" and "k \<noteq> key" using Cons.prems(2) p by auto
  then show ?case using Cons.IH [OF rest] by simp
qed

lemma geocode_keeps_cached:
  assumes "geocode net a s = (r, s1)" and "cached_coordinate (geoCache s) a' = Some v"
  shows "cached_coordinate (geoCache s1) a' = Some v"
  using assms
  by (auto simp: geocode_def Let_def cached_coordinate_def js_truthy_def js_get_def
           split: if_splits option.splits geo_response.splits list.splits)

lemma geocode_all_keeps_cached:
  "geocode_all net locs coords s = (r, s') \<Longrightarrow> cached_coordinate (geoCache s) a = Some v \<Longrightarrow>
   cached_coordinate (geoCache s') a = Some v"
proof (induction locs arbitrary: coords s)
  case Nil
  then show ?case by simp
next
  case (Cons p locs)
  obtain key addr where p: "p = (key, addr)" by (cases p)
  let ?s0 = "s\<lparr>console := console s @ [GeocodingLine key addr]\<rparr>"
  obtain r1 s1 where g: "geocode net addr ?s0 = (r1, s1)" by (cases "geocode net addr ?s0")
  have k1: "cached_coordinate (geoCache s1) a = Some v"
    using geocode_keeps_cached [OF g] Cons.prems(2) by simp
  show ?case
  proof (cases r1)
    case (Inl e)
    then show ?thesis using Cons.prems(1) p g k1 by auto
  next
    case (Inr c)
    then have "geocode_all net locs (coords(key \<mapsto> c)) s1 = (r, s')"
      using Cons.prems(1) p g by simp
    from Cons.IH [OF this k1] show ?thesis .
  qed
qed

lemma geocode_step_source:
  assumes g: "geocode net a0 s = (Inr c, s1)"
    and ext: "requests s' = requests s1 @ ext"
    and c1: "cached_coordinate (geoCache s1) addr = Some v"
  shows "case cached_coordinate (geoCache s) addr of
           Some v0 \<Rightarrow> v = v0
         | None \<Rightarrow> geocode_requested net (requests s') addr v"
proof (cases "cached_coordinate (geoCache s) addr")
  case (Some v0)
  then show ?thesis using geocode_keeps_cached [OF g Some] c1 by simp
next
  case None
  note ex = geocode_exact [OF g]
  show ?thesis
  proof (cases "cached_coordinate (geoCache s) a0")
    case (Some w)
    then have "s1 = s" using ex by simp
    then show ?thesis using None c1 by simp
  next
    case miss: None
    then have fc: "first_center (geo_net net (length (requests s)) a0) = Some c"
      and rq: "requests s1 = requests s @ [GeocodeRequest a0]"
      and gc: "geoCache s1 = (geoCache s)(a0 \<mapsto> c)"
      using ex by simp_all
    have eq: "addr = a0"
    proof (rule ccontr)
      assume "addr \<noteq> a0"
      then have "cached_coordinate (geoCache s1) addr = cached_coordinate (geoCache s) addr"
        by (simp add: gc cached_coordinate_def js_get_def)
      then show False using None c1 by simp
    qed
    have vc: "v = c"
      using c1 by (simp add: eq gc cached_coordinate_def js_get_def split: if_splits)
    have "requests s' ! length (requests s) = GeocodeRequest a0"
      unfolding ext rq by (simp add: nth_append)
    moreover have "length (requests s) < length (requests s')"
      unfolding ext rq by simp
    ultimately have "geocode_requested net (requests s') a0 c"
      unfolding geocode_requested_def using fc by blast
    then show ?thesis using None eq vc by simp
  qed
qed

lemma cached_coordinate_get:
  "cached_coordinate cache a = Some v \<Longrightarrow> js_get cache a = Some v"
  by (simp add: cached_coordinate_def split: if_splits)

lemma geocode_result_cached:
  "geocode net a s = (Inr v, s1) \<Longrightarrow> cached_coordinate (geoCache s1) a = Some v"
  using geocode_result_truthy [of net a s v s1]
  by (simp add: cached_coordinate_def js_truthy_def)

lemma geocode_all_coordinates:
  "geocode_all net locs coords s = (Inr coords', s') \<Longrightarrow>
   distinct (map fst locs) \<Longrightarrow>
   (key, addr) \<in> set locs \<Longrightarrow>
   \<exists>v. coords' key = Some v
     \<and> cached_coordinate (geoCache s') addr = Some v
     \<and> (case cached_coordinate (geoCache s) addr of
          Some v0 \<Rightarrow> v = v0
        | None \<Rightarrow> geocode_requested net (requests s') addr v)"
proof (induction locs arbitrary: coords s)
  case Nil
  then show ?case by simp
next
  case (Cons p locs)
  obtain k0 a0 where p: "p = (k0, a0)" by (cases p)
  let ?s0 = "s\<lparr>console := console s @ [GeocodingLine k0 a0]\<rparr>"
  obtain r s1 where g: "geocode net a0 ?s0 = (r, s1)" by (cases "geocode net a0 ?s0")
  from Cons.prems(1) p g obtain c where r: "r = Inr c"
    and rest: "geocode_all net locs (coords(k0 \<mapsto> c)) s1 = (Inr coords', s')"
    by (cases r) auto
  have g': "geocode net a0 ?s0 = (Inr c, s1)" using g r by simp
  have dist: "distinct (map fst locs)" and fresh: "k0 \<notin> fst ` set locs"
    using Cons.prems(2) p by simp_all
  obtain ext where ext: "requests s' = requests s1 @ ext"
    using geocode_all_requests_grow [of net locs "coords(k0 \<mapsto> c)" s1] rest by auto
  have src: "cached_coordinate (geoCache s1) a = Some v \<Longrightarrow>
             (case cached_coordinate (geoCache s) a of
                Some v0 \<Rightarrow> v = v0
              | None \<Rightarrow> geocode_requested net (requests s') a v)" for a v
    using geocode_step_source [OF g' ext, of a v] by simp
  show ?case
  proof (cases "(key, addr) = p")
    case True
    then have ka: "key = k0" "addr = a0" using p by simp_all
    have 1: "coords' k0 = Some c"
      using geocode_all_coords_other [OF rest fresh] by simp
    have c1: "cached_coordinate (geoCache s1) a0 = Some c"
      by (rule geocode_result_cached [OF g'])
    have 2: "cached_coordinate (geoCache s') a0 = Some c"
      by (rule geocode_all_keeps_cached [OF rest c1])
    show ?thesis unfolding ka
      by (rule exI [of _ c], intro conjI, rule 1, rule 2, rule src [OF c1])
  next
    case False
    then have mem: "(key, addr) \<in> set locs" using Cons.prems(3) by simp
    from Cons.IH [OF rest dist mem] obtain v where
      v: "coords' key = Some v" "cached_coordinate (geoCache s') addr = Some v"
      and from1: "case cached_coordinate (geoCache s1) addr of
                    Some v0 \<Rightarrow> v = v0
                  | None \<Rightarrow> geocode_requested net (requests s') addr v"
      by blast
    have "case cached_coordinate (geoCache s) addr of
            Some v0 \<Rightarrow> v = v0
          | None \<Rightarrow> geocode_requested net (requests s') addr v"
    proof (cases "cached_coordinate (geoCache s1) addr")
      case None
      have "cached_coordinate (geoCache s) addr = None"
      proof (rule ccontr)
        assume "cached_coordinate (geoCache s) addr \<noteq> None"
        then obtain w where "cached_coordinate (geoCache ?s0) addr = Some w" by auto
        from geocode_keeps_cached [OF g this] show False using None by simp
      qed
      then show ?thesis using from1 None by simp
    next
      case (Some v1)
      then have vv: "v = v1" using from1 by simp
      show ?thesis unfolding vv by (rule src [OF Some])
    qed
    then show ?thesis using v by blast
  qed
qed

lemma geocode_requested_append:
  "geocode_requested net reqs a v \<Longrightarrow> geocode_requested net (reqs @ ext) a v"
  unfolding geocode_requested_def
  by (metis length_append nth_append trans_less_add1)

lemma coordinate_source_append:
  assumes "case c of Some v0 \<Rightarrow> v = v0 | None \<Rightarrow> geocode_requested net reqs a v"
  shows "case c of Some v0 \<Rightarrow> v = v0 | None \<Rightarrow> geocode_requested net (reqs @ ext) a v"
  using assms geocode_requested_append [of net reqs a v ext] by (cases c) simp_all

lemma distinct_forward_keys:
  "distinct (concat (map (pair_keys keys) ps)) \<Longrightarrow>
   distinct (map (\<lambda>p. keys ! fst p @ ''|'' @ keys ! snd p) ps)"
proof (induction ps)
  case Nil
  then show ?case by simp
next
  case (Cons p ps)
  have "keys ! fst p @ ''|'' @ keys ! snd p \<in> set (pair_keys keys p)"
    by (simp add: pair_keys_def)
  moreover have "set (map (\<lambda>p. keys ! fst p @ ''|'' @ keys ! snd p) ps)
                   \<subseteq> set (concat (map (pair_keys keys) ps))"
    by (auto simp: pair_keys_def)
  moreover have "set (pair_keys keys p) \<inter> set (concat (map (pair_keys keys) ps)) = {}"
    using Cons.prems by simp
  ultimately have "keys ! fst p @ ''|'' @ keys ! snd p
                     \<notin> set (map (\<lambda>p. keys ! fst p @ ''|'' @ keys ! snd p) ps)"
    by blast
  moreover have "distinct (map (\<lambda>p. keys ! fst p @ ''|'' @ keys ! snd p) ps)"
    using Cons by simp
  ultimately show ?case by simp
qed

text \<open>
  C9, amended. For identifiers that are distinct and free of \<open>|\<close>, after a run that throws
  nothing, take a pair \<open>A\<close>, \<open>B\<close> of the enumeration. The geocode cache the run writes holds
  coordinates \<open>a\<close> and \<open>b\<close> for the addresses of \<open>A\<close> and \<open>B\<close>, each of them the truthy entry
  of the geocode cache the run started with or, failing that, the first match of an answer
  to a geocoding request of this run for the address. The meters \<open>m\<close> of the pair are the
  entry other than 0 that the route cache the run started with has under \<open>A|B\<close> or, failing
  that, the distance of the first route of an answer to a request of this run for the
  route from \<open>a\<close> to \<open>b\<close>. The route cache the run writes holds \<open>m\<close> under \<open>A|B\<close>, and the
  table holds under both \<open>A|B\<close> and \<open>B|A\<close> not \<open>m\<close> but \<open>m\<close> converted to miles and rounded
  to two decimals.
\<close>

theorem table_records_miles:
  assumes ok: "thrown (main_script net locs fs) = None"
    and d: "distinct (map fst locs)"
    and nobar: "\<forall>k \<in> set (map fst locs). CHR ''|'' \<notin> set k"
    and ij: "i < j" "j < length locs"
  shows "\<exists>gcache rcache tbl a b m.
           geoCacheFile (files_after (main_script net locs fs)) = Some gcache
         \<and> routeCacheFile (files_after (main_script net locs fs)) = Some rcache
         \<and> outputFile (files_after (main_script net locs fs)) = Some tbl
         \<and> cached_coordinate gcache (snd (locs ! i)) = Some a
         \<and> cached_coordinate gcache (snd (locs ! j)) = Some b
         \<and> (case cached_coordinate (loadCache (geoCacheFile fs)) (snd (locs ! i)) of
              Some v \<Rightarrow> a = v
            | None \<Rightarrow> geocode_requested net (issued (main_script net locs fs)) (snd (locs ! i)) a)
         \<and> (case cached_coordinate (loadCache (geoCacheFile fs)) (snd (locs ! j)) of
              Some v \<Rightarrow> b = v
            | None \<Rightarrow> geocode_requested net (issued (main_script net locs fs)) (snd (locs ! j)) b)
         \<and> (case cached_meters (loadCache (routeCacheFile fs))
                   (fst (locs ! i) @ ''|'' @ fst (locs ! j)) of
              Some m0 \<Rightarrow> m = m0
            | None \<Rightarrow> route_requested net (issued (main_script net locs fs)) a b m)
         \<and> rcache (fst (locs ! i) @ ''|'' @ fst (locs ! j)) = Some m
         \<and> map_of tbl (fst (locs ! i) @ ''|'' @ fst (locs ! j)) = Some (table_miles m)
         \<and> map_of tbl (fst (locs ! j) @ ''|'' @ fst (locs ! i)) = Some (table_miles m)"
proof -
  let ?R = "main_script net locs fs"
  let ?keys = "map fst locs"
  let ?ps = "pair_indices (length locs)"
  let ?k1 = "?keys ! i @ ''|'' @ ?keys ! j"
  let ?k2 = "?keys ! j @ ''|'' @ ?keys ! i"
  have il: "i < length locs" using ij by simp
  have ki: "?keys ! i = fst (locs ! i)" and kj: "?keys ! j = fst (locs ! j)"
    using il ij by simp_all
  from main_script_ok [OF ok] obtain coords s1 tbl0 s2 where
    g: "geocode_all net locs Map.empty (initial_state fs) = (Inr coords, s1)"
    and run: "run_pairs net ?keys coords ?ps [] s1 = (Inr tbl0, s2)"
    and fa: "files_after ?R = \<lparr>geoCacheFile = Some (geoCache s2),
               routeCacheFile = Some (routeCache s2), outputFile = Some tbl0\<rparr>"
    and iss: "issued ?R = requests s2"
    by blast
  have gc2: "geoCache s2 = geoCache s1" by (rule run_pairs_geoCache [OF run])
  have rc1: "routeCache s1 = loadCache (routeCacheFile fs)"
    using geocode_all_routeCache [of net locs Map.empty "initial_state fs"] g
    by (simp add: initial_state_def)
  have g0: "geoCache (initial_state fs) = loadCache (geoCacheFile fs)"
    by (simp add: initial_state_def)
  obtain ext where ext: "requests s2 = requests s1 @ ext"
    using run_pairs_requests_grow [of net ?keys coords ?ps "[]" s1] run by auto
  have memi: "(?keys ! i, snd (locs ! i)) \<in> set locs"
    unfolding ki using il by simp
  have memj: "(?keys ! j, snd (locs ! j)) \<in> set locs"
    unfolding kj using ij by simp
  from geocode_all_coordinates [OF g d memi] obtain a where
    a: "coords (?keys ! i) = Some a" "cached_coordinate (geoCache s1) (snd (locs ! i)) = Some a"
    and asrc: "case cached_coordinate (loadCache (geoCacheFile fs)) (snd (locs ! i)) of
                 Some v \<Rightarrow> a = v
               | None \<Rightarrow> geocode_requested net (requests s1) (snd (locs ! i)) a"
    unfolding g0 by blast
  from geocode_all_coordinates [OF g d memj] obtain b where
    b: "coords (?keys ! j) = Some b" "cached_coordinate (geoCache s1) (snd (locs ! j)) = Some b"
    and bsrc: "case cached_coordinate (loadCache (geoCacheFile fs)) (snd (locs ! j)) of
                 Some v \<Rightarrow> b = v
               | None \<Rightarrow> geocode_requested net (requests s1) (snd (locs ! j)) b"
    unfolding g0 by blast
  have asrc2: "case cached_coordinate (loadCache (geoCacheFile fs)) (snd (locs ! i)) of
                 Some v \<Rightarrow> a = v
               | None \<Rightarrow> geocode_requested net (issued ?R) (snd (locs ! i)) a"
    unfolding iss ext by (rule coordinate_source_append [OF asrc])
  have bsrc2: "case cached_coordinate (loadCache (geoCacheFile fs)) (snd (locs ! j)) of
                 Some v \<Rightarrow> b = v
               | None \<Rightarrow> geocode_requested net (issued ?R) (snd (locs ! j)) b"
    unfolding iss ext by (rule coordinate_source_append [OF bsrc])
  have mem: "(i, j) \<in> set ?ps" using ij by (simp add: set_pair_indices)
  have dk: "distinct (concat (map (pair_keys ?keys) ?ps))"
    using distinct_table_keys [OF d nobar] by simp
  have dkeys: "distinct (map (\<lambda>p. ?keys ! fst p @ ''|'' @ ?keys ! snd p) ?ps)"
    by (rule distinct_forward_keys [OF dk])
  from run_pairs_meters [OF run dkeys mem] obtain m where
    m: "routeCache s2 ?k1 = Some m"
    and msrc0: "case cached_meters (routeCache s1) ?k1 of
                  Some m0 \<Rightarrow> m = m0
                | None \<Rightarrow> \<exists>a' b'. coords (?keys ! i) = Some a' \<and> coords (?keys ! j) = Some b'
                             \<and> route_requested net (requests s2) a' b' m"
    by blast
  have msrc: "case cached_meters (loadCache (routeCacheFile fs)) ?k1 of
                Some m0 \<Rightarrow> m = m0
              | None \<Rightarrow> route_requested net (issued ?R) a b m"
  proof (cases "cached_meters (loadCache (routeCacheFile fs)) ?k1")
    case None
    then have "\<exists>a' b'. coords (?keys ! i) = Some a' \<and> coords (?keys ! j) = Some b'
                 \<and> route_requested net (requests s2) a' b' m"
      using msrc0 unfolding rc1 by simp
    then have "route_requested net (requests s2) a b m" using a(1) b(1) by auto
    then show ?thesis using None iss by simp
  next
    case (Some m0)
    then show ?thesis using msrc0 unfolding rc1 by simp
  qed
  have tbl0: "tbl0 = [] @ concat (map (pair_entries ?keys (routeCache s2)) ?ps)"
    by (rule run_pairs_table [OF run dk]) simp
  let ?tbl = "concat (map (pair_entries ?keys (routeCache s2)) ?ps)"
  have t: "tbl0 = ?tbl" using tbl0 by simp
  have dt: "distinct (map fst ?tbl)" unfolding map_fst_table by (rule dk)
  have pe: "pair_entries ?keys (routeCache s2) (i, j)
              = [(?k1, table_miles m), (?k2, table_miles m)]"
    using m by (simp add: pair_entries_def Let_def)
  have "set (pair_entries ?keys (routeCache s2) (i, j)) \<subseteq> set ?tbl" using mem by auto
  then have in1: "(?k1, table_miles m) \<in> set ?tbl" and in2: "(?k2, table_miles m) \<in> set ?tbl"
    unfolding pe by simp_all
  have m1: "map_of tbl0 ?k1 = Some (table_miles m)"
    unfolding t by (rule map_of_is_SomeI [OF dt in1])
  have m2: "map_of tbl0 ?k2 = Some (table_miles m)"
    unfolding t by (rule map_of_is_SomeI [OF dt in2])
  have f1: "geoCacheFile (files_after ?R) = Some (geoCache s1)" unfolding fa gc2 by simp
  have f2: "routeCacheFile (files_after ?R) = Some (routeCache s2)" unfolding fa by simp
  have f3: "outputFile (files_after ?R) = Some tbl0" unfolding fa by simp
  show ?thesis
    by (rule exI [of _ "geoCache s1"], rule exI [of _ "routeCache s2"], rule exI [of _ tbl0],
        rule exI [of _ a], rule exI [of _ b], rule exI [of _ m],
        intro conjI, rule f1, rule f2, rule f3, rule a(2), rule b(2), rule asrc2, rule bsrc2,
        rule msrc [unfolded ki kj], rule m [unfolded ki kj],
        rule m1 [unfolded ki kj], rule m2 [unfolded ki kj])
qed

theorem table_records_miles_witness:
  "thrown (main_script fixed_network three_locations no_files) = None
   \<and> distinct (map fst three_locations)
   \<and> CHR ''|'' \<notin> set (concat (map fst three_locations))
   \<and> (0::nat) < 1 \<and> 1 < length three_locations
   \<and> (\<exists>gcache rcache tbl a b m.
           geoCacheFile (files_after (main_script fixed_network three_locations no_files)) = Some gcache
         \<and> routeCacheFile (files_after (main_script fixed_network three_locations no_files)) = Some rcache
         \<and> outputFile (files_after (main_script fixed_network three_locations no_files)) = Some tbl
         \<and> cached_coordinate gcache (snd (three_locations ! 0)) = Some a
         \<and> cached_coordinate gcache (snd (three_locations ! 1)) = Some b
         \<and> (case cached_coordinate (loadCache (geoCacheFile no_files)) (snd (three_locations ! 0)) of
              Some v \<Rightarrow> a = v
            | None \<Rightarrow> geocode_requested fixed_network
                        (issued (main_script fixed_network three_locations no_files))
                        (snd (three_locations ! 0)) a)
         \<and> (case cached_coordinate (loadCache (geoCacheFile no_files)) (snd (three_locations ! 1)) of
              Some v \<Rightarrow> b = v
            | None \<Rightarrow> geocode_requested fixed_network
                        (issued (main_script fixed_network three_locations no_files))
                        (snd (three_locations ! 1)) b)
         \<and> (case cached_meters (loadCache (routeCacheFile no_files))
                   (fst (three_locations ! 0) @ ''|'' @ fst (three_locations ! 1)) of
              Some m0 \<Rightarrow> m = m0
            | None \<Rightarrow> route_requested fixed_network
                        (issued (main_script fixed_network three_locations no_files)) a b m)
         \<and> rcache (fst (three_locations ! 0) @ ''|'' @ fst (three_locations ! 1)) = Some m
         \<and> map_of tbl (fst (three_locations ! 0) @ ''|'' @ fst (three_locations ! 1))
               = Some (table_miles m)
         \<and> map_of tbl (fst (three_locations ! 1) @ ''|'' @ fst (three_locations ! 0))
               = Some (table_miles m))"
proof -
  have a: "(0::nat) < 1" by simp
  have b: "1 < length three_locations" by (simp add: three_locations_def)
  show ?thesis
    by (intro conjI, rule fixed_run_ok, rule three_locations_keys(1), rule three_locations_no_bar,
        rule a, rule b, rule table_records_miles [OF fixed_run_ok three_locations_keys a b])
qed

text \<open>
  C9 as stated fails. The service returns 2000 meters for the pair, the route cache keeps
  2000, and the table stores 1.24 (the binary64 value nearest to it) in both directions.
  And with identifiers that contain the separator the record need not belong to the pair:
  for \<open>a|b\<close> and \<open>a\<close> the route cache keeps 4000 meters, 2.49 miles, under \<open>a|b|a\<close>, and the
  table ends with 3.11 there, written for the pair of \<open>b|a\<close> and \<open>a\<close>.
\<close>

theorem table_records_meters_counterexample:
  "thrown (main_script fixed_network two_locations no_files) = None
   \<and> the (routeCacheFile (files_after (main_script fixed_network two_locations no_files))) ''HOME|LS''
         = Some 2000
   \<and> outputFile (files_after (main_script fixed_network two_locations no_files))
         = Some [(''HOME|LS'', 5584463537939415 / 4503599627370496),
                 (''LS|HOME'', 5584463537939415 / 4503599627370496)]
   \<and> the (routeCacheFile (files_after (main_script fixed_network bar_locations no_files)))
         (fst (bar_locations ! 0) @ ''|'' @ fst (bar_locations ! 2)) = Some 4000
   \<and> table_miles 4000 = 1401745384019067 / 562949953421312
   \<and> map_of (the (outputFile (files_after (main_script fixed_network bar_locations no_files))))
         (fst (bar_locations ! 0) @ ''|'' @ fst (bar_locations ! 2))
       = Some (7003097420561121 / 2251799813685248)"
  by code_simp


section \<open>Properties of the interactive tool\<close>

lemma geocode_results_ok:
  assumes "\<forall>i < length locations. \<exists>c cs. geocoding_net w i (locations ! i) = GeocodingOk (c # cs)"
  shows "first_rejection w locations (geocode_results w locations) = None"
    and "length (fulfilled (geocode_results w locations)) = length locations"
    and "\<And>i. i < length locations \<Longrightarrow>
           place_address (fulfilled (geocode_results w locations) ! i) = locations ! i"
proof -
  define p where "p i = \<lparr>place_address = locations ! i,
                         place_lon = fst (hd (case geocoding_net w i (locations ! i) of
                                                GeocodingOk cs \<Rightarrow> cs | _ \<Rightarrow> [])),
                         place_lat = snd (hd (case geocoding_net w i (locations ! i) of
                                                GeocodingOk cs \<Rightarrow> cs | _ \<Rightarrow> []))\<rparr>" for i
  have each: "geocodeAddress w i (locations ! i) = Inr (p i)" if "i < length locations" for i
  proof -
    from assms that obtain c cs where "geocoding_net w i (locations ! i) = GeocodingOk (c # cs)"
      by blast
    then show ?thesis by (cases c) (simp add: geocodeAddress_def p_def)
  qed
  have res: "geocode_results w locations = map Inr (map p [0..<length locations])"
    unfolding geocode_results_def using each by simp
  have none: "filter (\<lambda>i. isl (map Inr xs ! i)) [0..<length (map Inr xs)] = []"
    for xs :: "place list"
    by (simp add: filter_empty_conv)
  have ff: "fulfilled (map Inr xs) = xs" for xs :: "place list"
    by (induction xs) simp_all
  show "first_rejection w locations (geocode_results w locations) = None"
    unfolding res first_rejection_def none by simp
  show "length (fulfilled (geocode_results w locations)) = length locations"
    unfolding res ff by simp
  show "place_address (fulfilled (geocode_results w locations) ! i) = locations ! i"
    if "i < length locations" for i
    unfolding res ff using that by (simp add: p_def)
qed

text \<open>
  The rejection shown is the earliest in time, not the first in the list: a bad status for
  the second address is shown although the first address has no match.
\<close>

lemma earliest_rejection_wins:
  "status (fst (calculateMileage failing_web ''pk.token'' three_lines False))
     = ''Geocoding failed for '' @ [CHR 0x22] @ ''2 Lake Rd'' @ [CHR 0x22] @ '' (HTTP 500)''"
  by code_simp

lemma calculateMileage_route:
  assumes two: "2 \<le> length (entered_locations text)"
    and tok: "token \<noteq> []" "token \<noteq> ''YOUR_MAPBOX_ACCESS_TOKEN_HERE''"
    and geo: "\<forall>i < length (route_locations text roundTrip).
                \<exists>c cs. geocoding_net w i (route_locations text roundTrip ! i) = GeocodingOk (c # cs)"
    and dir: "directions_net w (length (route_locations text roundTrip))
                (fulfilled (geocode_results w (route_locations text roundTrip))) = DirectionsOk (r # rs)"
  shows "calculateMileage w token text roundTrip
           = (show_route (fulfilled (geocode_results w (route_locations text roundTrip))) r,
              map FetchGeocoding (route_locations text roundTrip)
                @ [FetchDirections (fulfilled (geocode_results w (route_locations text roundTrip)))])"
proof -
  have "getRoute w (length (route_locations text roundTrip))
          (fulfilled (geocode_results w (route_locations text roundTrip))) = Inr r"
    using dir by (simp add: getRoute_def)
  then show ?thesis
    using two tok geocode_results_ok(1) [OF geo]
    by (simp add: calculateMileage_def Let_def)
qed

lemma miles_5000: "formatMiles (metersToMiles 5000) = Decimal ''3.11''"
  by code_simp

lemma miles_1000: "formatMiles (metersToMiles 1000) = Decimal ''0.62''"
  by code_simp

lemma miles_2000: "formatMiles (metersToMiles 2000) = Decimal ''1.24''"
  by code_simp

lemma miles_3000: "formatMiles (metersToMiles 3000) = Decimal ''1.86''"
  by code_simp

lemma index_digits:
  "decimal_digits 1 = ''1''" "decimal_digits 2 = ''2''"
  "decimal_digits (Suc 0) = ''1''" "decimal_digits (Suc (Suc 0)) = ''2''"
  by code_simp+

lemma three_lines_locations:
  "route_locations three_lines False = [''1 Fake St'', ''2 Lake Rd'', ''5 Corp Dr'']"
  "entered_locations three_lines = [''1 Fake St'', ''2 Lake Rd'', ''5 Corp Dr'']"
  by code_simp+

lemma three_lines_plain: "list_all plain_text (route_locations three_lines False)"
  unfolding three_lines_locations by code_simp

lemma show_route_fallback:
  assumes "legs r = None \<or> legs r = Some []"
  shows "show_route geocoded r
           = \<lparr>status = ''Done.'', is_error = False, results_hidden = False,
               table_rows = fallback_rows geocoded (distance r),
               total_miles = Some (formatMiles (metersToMiles (distance r)))\<rparr>"
  using assms by (auto simp: show_route_def Let_def)

text \<open>
  C4. When every address is geocoded and the route has no legs (the list is missing or
  empty), one row is appended per consecutive pair of the \<open>K\<close> locations, \<open>K - 1\<close> rows, and
  the total shows the whole distance of the route converted to miles. When the addresses
  are plain text, every row shows its index, its two addresses and, as the total does,
  the whole distance converted to miles: the distance is not split over the rows.
\<close>

theorem fallback_rows_show_full_total:
  assumes two: "2 \<le> length (entered_locations text)"
    and tok: "token \<noteq> []" "token \<noteq> ''YOUR_MAPBOX_ACCESS_TOKEN_HERE''"
    and geo: "\<forall>i < length (route_locations text roundTrip).
                \<exists>c cs. geocoding_net w i (route_locations text roundTrip ! i) = GeocodingOk (c # cs)"
    and dir: "directions_net w (length (route_locations text roundTrip))
                (fulfilled (geocode_results w (route_locations text roundTrip))) = DirectionsOk (r # rs)"
    and nolegs: "legs r = None \<or> legs r = Some []"
  shows "length (table_rows (fst (calculateMileage w token text roundTrip)))
           = length (route_locations text roundTrip) - 1
       \<and> total_miles (fst (calculateMileage w token text roundTrip))
           = Some (formatMiles (metersToMiles (distance r)))
       \<and> status (fst (calculateMileage w token text roundTrip)) = ''Done.''
       \<and> (list_all plain_text (route_locations text roundTrip) \<longrightarrow>
            map shown_cells (table_rows (fst (calculateMileage w token text roundTrip)))
              = map (\<lambda>i. Some (decimal_digits (i + 1),
                               route_locations text roundTrip ! i,
                               route_locations text roundTrip ! (i + 1),
                               formatMiles (metersToMiles (distance r))))
                  [0..<length (route_locations text roundTrip) - 1])"
proof -
  let ?locs = "route_locations text roundTrip"
  let ?geocoded = "fulfilled (geocode_results w ?locs)"
  let ?miles = "formatMiles (metersToMiles (distance r))"
  have page: "fst (calculateMileage w token text roundTrip)
                = \<lparr>status = ''Done.'', is_error = False, results_hidden = False,
                    table_rows = fallback_rows ?geocoded (distance r),
                    total_miles = Some ?miles\<rparr>"
    unfolding calculateMileage_route [OF two tok geo dir] using show_route_fallback [OF nolegs] by simp
  have len: "length ?geocoded = length ?locs" by (rule geocode_results_ok(2) [OF geo])
  have rows: "fallback_rows ?geocoded (distance r)
                = map (\<lambda>i. \<lparr>row_index = i + 1, row_from = ?locs ! i, row_to = ?locs ! (i + 1),
                              row_miles = ?miles\<rparr>)
                    [0..<length ?locs - 1]"
    unfolding fallback_rows_def len using geocode_results_ok(3) [OF geo] by simp
  have shown: "map shown_cells (fallback_rows ?geocoded (distance r))
                 = map (\<lambda>i. Some (decimal_digits (i + 1), ?locs ! i, ?locs ! (i + 1), ?miles))
                     [0..<length ?locs - 1]"
    if plain: "list_all plain_text ?locs"
  proof -
    have "plain_text (?locs ! i)" if "i < length ?locs" for i
      using plain that by (simp add: list_all_length)
    then show ?thesis
      unfolding rows by (simp add: shown_cells_def)
  qed
  show ?thesis
    unfolding page using rows shown by simp
qed

text \<open>
  Three plain addresses and a route of 5000 meters without legs: two rows, each 3.11.
\<close>

theorem fallback_rows_show_full_total_witness:
  "2 \<le> length (entered_locations three_lines)
   \<and> length (route_locations three_lines False) = 3
   \<and> list_all plain_text (route_locations three_lines False)
   \<and> directions_net street_web 3 (fulfilled (geocode_results street_web (route_locations three_lines False)))
       = DirectionsOk [\<lparr>distance = 5000, legs = Some []\<rparr>]
   \<and> length (table_rows (fst (calculateMileage street_web ''pk.token'' three_lines False))) = 2
   \<and> map shown_cells (table_rows (fst (calculateMileage street_web ''pk.token'' three_lines False)))
       = [Some (''1'', ''1 Fake St'', ''2 Lake Rd'', Decimal ''3.11''),
          Some (''2'', ''2 Lake Rd'', ''5 Corp Dr'', Decimal ''3.11'')]
   \<and> total_miles (fst (calculateMileage street_web ''pk.token'' three_lines False))
       = Some (Decimal ''3.11'')"
proof -
  let ?r = "\<lparr>distance = 5000, legs = Some []\<rparr> :: route"
  let ?page = "fst (calculateMileage street_web ''pk.token'' three_lines False)"
  have two: "2 \<le> length (entered_locations three_lines)" by (simp add: three_lines_locations)
  have k: "length (route_locations three_lines False) = 3" by (simp add: three_lines_locations)
  have tok: "''pk.token'' \<noteq> []" "''pk.token'' \<noteq> ''YOUR_MAPBOX_ACCESS_TOKEN_HERE''" by simp_all
  have geo: "\<forall>i < length (route_locations three_lines False).
                \<exists>c cs. geocoding_net street_web i (route_locations three_lines False ! i) = GeocodingOk (c # cs)"
    by (simp add: street_web_def)
  have dir: "directions_net street_web (length (route_locations three_lines False))
                (fulfilled (geocode_results street_web (route_locations three_lines False)))
              = DirectionsOk (?r # [])"
    by (simp add: street_web_def)
  have nolegs: "legs ?r = None \<or> legs ?r = Some []" by simp
  note t = fallback_rows_show_full_total [OF two tok geo dir nolegs]
  have l: "length (table_rows ?page) = 2" using t k by simp
  have tot: "total_miles ?page = Some (Decimal ''3.11'')" using t by (simp add: miles_5000)
  have upt: "[0..<length (route_locations three_lines False) - 1] = [0, 1]"
    unfolding k by (simp add: upt_conv_Cons)
  have "map shown_cells (table_rows ?page)
          = map (\<lambda>i. Some (decimal_digits (i + 1),
                           route_locations three_lines False ! i,
                           route_locations three_lines False ! (i + 1),
                           formatMiles (metersToMiles (distance ?r))))
              [0..<length (route_locations three_lines False) - 1]"
    using t three_lines_plain by (elim conjE) simp
  then have s: "map shown_cells (table_rows ?page)
          = [Some (''1'', ''1 Fake St'', ''2 Lake Rd'', Decimal ''3.11''),
             Some (''2'', ''2 Lake Rd'', ''5 Corp Dr'', Decimal ''3.11'')]"
    unfolding upt by (simp add: three_lines_locations miles_5000 index_digits)
  have dir': "directions_net street_web 3
                (fulfilled (geocode_results street_web (route_locations three_lines False)))
              = DirectionsOk [?r]"
    using dir unfolding k .
  show ?thesis
    by (intro conjI, rule two, rule k, rule three_lines_plain, rule dir', rule l, rule s, rule tot)
qed

text \<open>
  C5 at three locations. The fallback does not show one leg from the first location to
  the last: it shows two rows, one per consecutive pair, each with the whole 5000 meters.
\<close>

theorem fallback_is_not_one_leg:
  "fst (calculateMileage street_web ''pk.token'' three_lines False)
     = \<lparr>status = ''Done.'', is_error = False, results_hidden = False,
         table_rows =
           [\<lparr>row_index = 1, row_from = ''1 Fake St'', row_to = ''2 Lake Rd'',
              row_miles = Decimal ''3.11''\<rparr>,
            \<lparr>row_index = 2, row_from = ''2 Lake Rd'', row_to = ''5 Corp Dr'',
              row_miles = Decimal ''3.11''\<rparr>],
         total_miles = Some (Decimal ''3.11'')\<rparr>"
  by code_simp

text \<open>
  C7. With fewer than two non-empty lines the handler shows the error and returns: the
  status is the message, marked as an error, and no request has been made.
\<close>

theorem too_few_locations_rejected:
  assumes "length (entered_locations text) < 2"
  shows "status (fst (calculateMileage w token text roundTrip)) = ''Enter at least two locations.''
       \<and> is_error (fst (calculateMileage w token text roundTrip))
       \<and> results_hidden (fst (calculateMileage w token text roundTrip))
       \<and> table_rows (fst (calculateMileage w token text roundTrip)) = []
       \<and> total_miles (fst (calculateMileage w token text roundTrip)) = None
       \<and> snd (calculateMileage w token text roundTrip) = []"
  using assms by (simp add: calculateMileage_def rejected_def)

theorem too_few_locations_rejected_witness:
  "entered_locations one_line = [''1 Fake St'']
   \<and> length (entered_locations one_line) < 2
   \<and> status (fst (calculateMileage street_web ''pk.token'' one_line True)) = ''Enter at least two locations.''
   \<and> is_error (fst (calculateMileage street_web ''pk.token'' one_line True))
   \<and> snd (calculateMileage street_web ''pk.token'' one_line True) = []"
proof -
  have e: "entered_locations one_line = [''1 Fake St'']" by code_simp
  then have l: "length (entered_locations one_line) < 2" by simp
  from too_few_locations_rejected [OF l, of street_web "''pk.token''" True] e l
  show ?thesis by (elim conjE) (intro conjI)
qed

text \<open>
  C8. For a route of 3000 meters with legs of 1000 and 2000 meters (and so at least three
  locations), two rows are appended and the total shows 1.86. When the addresses are
  plain text, the rows show 0.62 and 1.24 in this order, next to their index and their
  two addresses.
\<close>

theorem legs_rendered_in_miles:
  assumes two: "2 \<le> length (entered_locations text)"
    and tok: "token \<noteq> []" "token \<noteq> ''YOUR_MAPBOX_ACCESS_TOKEN_HERE''"
    and geo: "\<forall>i < length (route_locations text roundTrip).
                \<exists>c cs. geocoding_net w i (route_locations text roundTrip ! i) = GeocodingOk (c # cs)"
    and dir: "directions_net w (length (route_locations text roundTrip))
                (fulfilled (geocode_results w (route_locations text roundTrip))) = DirectionsOk (r # rs)"
    and three: "3 \<le> length (route_locations text roundTrip)"
    and total: "distance r = 3000"
    and legs: "legs r = Some [1000, 2000]"
  shows "length (table_rows (fst (calculateMileage w token text roundTrip))) = 2
       \<and> total_miles (fst (calculateMileage w token text roundTrip)) = Some (Decimal ''1.86'')
       \<and> status (fst (calculateMileage w token text roundTrip)) = ''Done.''
       \<and> (list_all plain_text (route_locations text roundTrip) \<longrightarrow>
            map shown_cells (table_rows (fst (calculateMileage w token text roundTrip)))
              = [Some (''1'', route_locations text roundTrip ! 0, route_locations text roundTrip ! 1,
                       Decimal ''0.62''),
                 Some (''2'', route_locations text roundTrip ! 1, route_locations text roundTrip ! 2,
                       Decimal ''1.24'')])"
proof -
  let ?locs = "route_locations text roundTrip"
  let ?geocoded = "fulfilled (geocode_results w ?locs)"
  let ?rows = "[\<lparr>row_index = 1, row_from = ?locs ! 0, row_to = ?locs ! 1,
                  row_miles = Decimal ''0.62''\<rparr>,
                \<lparr>row_index = 2, row_from = ?locs ! 1, row_to = ?locs ! 2,
                  row_miles = Decimal ''1.24''\<rparr>]"
  have len: "3 \<le> length ?geocoded"
    using geocode_results_ok(2) [OF geo] three by simp
  have lt: "0 < length ?locs" "1 < length ?locs" "2 < length ?locs" using three by auto
  have addr: "place_address (?geocoded ! 0) = ?locs ! 0" "place_address (?geocoded ! 1) = ?locs ! 1"
      "place_address (?geocoded ! 2) = ?locs ! 2"
    by (rule geocode_results_ok(3) [OF geo lt(1)], rule geocode_results_ok(3) [OF geo lt(2)],
        rule geocode_results_ok(3) [OF geo lt(3)])
  have rows: "leg_rows ?geocoded 0 [1000, 2000] = (?rows, None)"
    using len addr by (simp add: miles_1000 miles_2000 numeral_2_eq_2)
  have legs': "(case legs r of None \<Rightarrow> [] | Some ls \<Rightarrow> ls) = [1000, 2000]"
    by (simp add: legs)
  have page: "show_route ?geocoded r
                = \<lparr>status = ''Done.'', is_error = False, results_hidden = False,
                    table_rows = ?rows, total_miles = Some (Decimal ''1.86'')\<rparr>"
    by (simp only: show_route_def Let_def legs' total rows) (simp add: miles_3000)
  have shown: "map shown_cells ?rows
                 = [Some (''1'', ?locs ! 0, ?locs ! 1, Decimal ''0.62''),
                    Some (''2'', ?locs ! 1, ?locs ! 2, Decimal ''1.24'')]"
    if plain: "list_all plain_text ?locs"
  proof -
    have "plain_text (?locs ! 0)" "plain_text (?locs ! 1)" "plain_text (?locs ! 2)"
      using plain lt by (simp_all add: list_all_length)
    then show ?thesis by (simp add: shown_cells_def index_digits)
  qed
  show ?thesis
    unfolding calculateMileage_route [OF two tok geo dir] fst_conv page using shown by simp
qed

theorem legs_rendered_in_miles_witness:
  "2 \<le> length (entered_locations three_lines)
   \<and> 3 \<le> length (route_locations three_lines False)
   \<and> list_all plain_text (route_locations three_lines False)
   \<and> map shown_cells (table_rows (fst (calculateMileage legs_web ''pk.token'' three_lines False)))
           = [Some (''1'', ''1 Fake St'', ''2 Lake Rd'', Decimal ''0.62''),
              Some (''2'', ''2 Lake Rd'', ''5 Corp Dr'', Decimal ''1.24'')]
   \<and> total_miles (fst (calculateMileage legs_web ''pk.token'' three_lines False))
           = Some (Decimal ''1.86'')"
proof -
  let ?r = "\<lparr>distance = 3000, legs = Some [1000, 2000]\<rparr> :: route"
  let ?page = "fst (calculateMileage legs_web ''pk.token'' three_lines False)"
  have two: "2 \<le> length (entered_locations three_lines)" by (simp add: three_lines_locations)
  have k: "3 \<le> length (route_locations three_lines False)" by (simp add: three_lines_locations)
  have tok: "''pk.token'' \<noteq> []" "''pk.token'' \<noteq> ''YOUR_MAPBOX_ACCESS_TOKEN_HERE''" by simp_all
  have geo: "\<forall>i < length (route_locations three_lines False).
                \<exists>c cs. geocoding_net legs_web i (route_locations three_lines False ! i) = GeocodingOk (c # cs)"
    by (simp add: legs_web_def)
  have dir: "directions_net legs_web (length (route_locations three_lines False))
                (fulfilled (geocode_results legs_web (route_locations three_lines False)))
              = DirectionsOk (?r # [])"
    by (simp add: legs_web_def)
  have d: "distance ?r = 3000" and l: "legs ?r = Some [1000, 2000]" by simp_all
  note t = legs_rendered_in_miles [OF two tok geo dir k d l]
  have tot: "total_miles ?page = Some (Decimal ''1.86'')" using t by (elim conjE)
  have "map shown_cells (table_rows ?page)
          = [Some (''1'', route_locations three_lines False ! 0, route_locations three_lines False ! 1,
                   Decimal ''0.62''),
             Some (''2'', route_locations three_lines False ! 1, route_locations three_lines False ! 2,
                   Decimal ''1.24'')]"
    using t three_lines_plain by (elim conjE) simp
  then have s: "map shown_cells (table_rows ?page)
          = [Some (''1'', ''1 Fake St'', ''2 Lake Rd'', Decimal ''0.62''),
             Some (''2'', ''2 Lake Rd'', ''5 Corp Dr'', Decimal ''1.24'')]"
    by (simp add: three_lines_locations)
  show ?thesis
    by (intro conjI, rule two, rule k, rule three_lines_plain, rule s, rule tot)
qed

end
